theory Spec2Isabelle
  imports Main "HOL-Library.Sublist"
begin

section \<open>Exceptions\<close>

text \<open>
  The Python exceptions that the modelled functions of \<^verbatim>\<open>scanner.py\<close> raise or handle.
  A function that can raise returns \<open>exn + 'a\<close>, with \<open>Inl\<close> for the exception.
\<close>

datatype exn =
    SignatureCacheMalformedException
  | SignatureCacheOutdatedException
  | ConfigurationException
  | JSONDecodeError
  | AttributeError
  | TypeError
  | KeyError
  | FileNotFoundError
  | IndexError
  | PermissionError
  | RuntimeError
  | ZlibError
  | BadZipFile string

section \<open>Signature repository\<close>

subsection \<open>JSON documents and the files holding them\<close>

text \<open>
  What \<^verbatim>\<open>json.load\<close> returns: a tree of Python values. A Python \<^verbatim>\<open>dict\<close> keeps its keys
  in insertion order, so an object is an association list. Floating point numbers do not
  occur in the signature files and are left out.
\<close>

datatype json =
    JNull
  | JBool bool
  | JInt int
  | JStr string
  | JArr "json list"
  | JObj "(string \<times> json) list"

text \<open>
  A file on disk is identified with what \<^verbatim>\<open>json.load\<close> makes of it: a document, or a
  \<^verbatim>\<open>JSONDecodeError\<close>. \<^verbatim>\<open>json.dump\<close> of a tree writes a file that loads back as that tree.
\<close>

datatype file_body = Document json | Unparsable

text \<open>
  The part of the world the signature repository touches: the two configuration globals
  (\<^verbatim>\<open>common.config\<close> and the module's own \<^verbatim>\<open>config\<close>, each \<^verbatim>\<open>None\<close> or a dict), the
  files by path, the directories that exist, and the bundled default files by name
  (in \<^verbatim>\<open>data/scanner\<close> beside the module).
\<close>

record world =
  common_config :: "(string \<rightharpoonup> string) option"
  config :: "(string \<rightharpoonup> string) option"
  files :: "string \<rightharpoonup> file_body"
  dirs :: "string set"
  bundled :: "string \<rightharpoonup> file_body"

definition SCANNER_CACHE_VERSION :: int where
  "SCANNER_CACHE_VERSION = 1"

text \<open>\<^verbatim>\<open>Path(a) / b\<close>.\<close>

text \<open>
  \<^verbatim>\<open>pathlib.Path\<close> on POSIX, as the text \<^verbatim>\<open>str\<close> makes of it. The path is split at the
  slashes; empty components and \<^verbatim>\<open>.\<close> are dropped; the root is \<^verbatim>\<open>//\<close> for exactly two
  leading slashes and \<^verbatim>\<open>/\<close> for any other number of them; the empty path is \<^verbatim>\<open>.\<close>.
\<close>

fun split_slash :: "string \<Rightarrow> string list" where
  "split_slash [] = [[]]"
| "split_slash (c # s) =
     (if c = CHR ''/'' then [] # split_slash s
      else (case split_slash s of [] \<Rightarrow> [[c]] | p # ps \<Rightarrow> (c # p) # ps))"

definition path_parts :: "string \<Rightarrow> string list" where
  "path_parts s = filter (\<lambda>p. p \<noteq> [] \<and> p \<noteq> ''.'') (split_slash s)"

definition path_root :: "string \<Rightarrow> string" where
  "path_root s =
     (if prefix ''//'' s \<and> \<not> prefix ''///'' s then ''//''
      else if prefix ''/'' s then ''/''
      else [])"

fun join_slash :: "string list \<Rightarrow> string" where
  "join_slash [] = []"
| "join_slash [p] = p"
| "join_slash (p # q # ps) = p @ ''/'' @ join_slash (q # ps)"

definition path_str :: "string \<Rightarrow> string list \<Rightarrow> string" where
  "path_str root parts = (if root = [] \<and> parts = [] then ''.'' else root @ join_slash parts)"

definition Path :: "string \<Rightarrow> string" where
  "Path s = path_str (path_root s) (path_parts s)"

text \<open>\<^verbatim>\<open>Path(a) / b\<close>: an absolute \<open>b\<close> replaces \<open>a\<close>.\<close>

definition path_join :: "string \<Rightarrow> string \<Rightarrow> string" where
  "path_join a b =
     (if prefix ''/'' b then Path b
      else path_str (path_root a) (path_parts a @ path_parts b))"

text \<open>
  \<^verbatim>\<open>_scanner_cachedir\<close>: the test reads \<^verbatim>\<open>common.config\<close> (an empty dict is falsy), the
  lookup reads the module's \<^verbatim>\<open>config\<close>; the directory is created.
\<close>

definition scanner_cachedir :: "world \<Rightarrow> exn + (string \<times> world)" where
  "scanner_cachedir w =
     (case common_config w of
        None \<Rightarrow> Inl ConfigurationException
      | Some cc \<Rightarrow>
          if cc = Map.empty \<or> cc ''cachedir_scanner'' = None then Inl ConfigurationException
          else (case config w of
                  None \<Rightarrow> Inl TypeError
                | Some c \<Rightarrow>
                    (case c ''cachedir_scanner'' of
                       None \<Rightarrow> Inl KeyError
                     | Some d \<Rightarrow> Inr (Path d, w\<lparr>dirs := insert (Path d) (dirs w)\<rparr>))))"

subsection \<open>SignatureDataController\<close>

record sdc =
  name :: string
  filename :: string
  data :: json

text \<open>\<^verbatim>\<open>dict.get\<close> on the data; anything but a dict has no \<^verbatim>\<open>get\<close>.\<close>

definition data_get :: "json \<Rightarrow> string \<Rightarrow> exn + json option" where
  "data_get d k = (case d of JObj kvs \<Rightarrow> Inr (map_of kvs k) | _ \<Rightarrow> Inl AttributeError)"

text \<open>
  \<^verbatim>\<open>check_data_version\<close>: Python's \<^verbatim>\<open>!=\<close> compares \<^verbatim>\<open>True\<close> equal to \<^verbatim>\<open>1\<close>.
\<close>

definition check_data_version :: "sdc \<Rightarrow> exn + unit" where
  "check_data_version s =
     (case data_get (data s) ''version'' of
        Inl e \<Rightarrow> Inl e
      | Inr v \<Rightarrow>
          if v = Some (JInt SCANNER_CACHE_VERSION) \<or> v = Some (JBool True) then Inr ()
          else Inl SignatureCacheMalformedException)"

definition valid_keys :: "string list" where
  "valid_keys = [''timestamp'', ''version'', ''signatures'']"

text \<open>\<^verbatim>\<open>verify_data\<close>: every key outside \<^verbatim>\<open>valid_keys\<close> is deleted from the dict.\<close>

definition verify_data :: "sdc \<Rightarrow> exn + sdc" where
  "verify_data s =
     (case data s of
        JObj kvs \<Rightarrow> Inr (s\<lparr>data := JObj (filter (\<lambda>kv. fst kv \<in> set valid_keys) kvs)\<rparr>)
      | _ \<Rightarrow> Inl AttributeError)"

definition load_from_defaults :: "world \<Rightarrow> sdc \<Rightarrow> exn + sdc" where
  "load_from_defaults w s =
     (case bundled w (filename s) of
        None \<Rightarrow> Inl FileNotFoundError
      | Some Unparsable \<Rightarrow> Inl JSONDecodeError
      | Some (Document d) \<Rightarrow> Inr (s\<lparr>data := d\<rparr>))"

definition load_from_cache :: "world \<Rightarrow> sdc \<Rightarrow> exn + (world \<times> sdc)" where
  "load_from_cache w s =
     (case scanner_cachedir w of
        Inl e \<Rightarrow> Inl e
      | Inr (d, w') \<Rightarrow>
          (case files w' (path_join d (filename s)) of
             None \<Rightarrow> Inl SignatureCacheMalformedException
           | Some Unparsable \<Rightarrow> Inl JSONDecodeError
           | Some (Document j) \<Rightarrow> Inr (w', s\<lparr>data := j\<rparr>)))"

definition write_to_cache :: "world \<Rightarrow> sdc \<Rightarrow> exn + world" where
  "write_to_cache w s =
     (case scanner_cachedir w of
        Inl e \<Rightarrow> Inl e
      | Inr (d, w') \<Rightarrow>
          Inr (w'\<lparr>files := (files w')(path_join d (filename s) \<mapsto> Document (data s))\<rparr>))"

text \<open>
  \<^verbatim>\<open>load\<close>: the \<^verbatim>\<open>try\<close> body is \<^verbatim>\<open>load_from_cache\<close> then \<^verbatim>\<open>verify_data\<close>; only
  \<^verbatim>\<open>SignatureCacheMalformedException\<close> is handled, by loading the defaults and writing
  them to the cache. Neither \<^verbatim>\<open>check_data_version\<close> nor a timestamp check is called.
  When \<^verbatim>\<open>load_from_cache\<close> raises, the directory it created stays.
\<close>

definition load_try :: "world \<Rightarrow> sdc \<Rightarrow> exn + (world \<times> sdc)" where
  "load_try w s =
     (case load_from_cache w s of
        Inl e \<Rightarrow> Inl e
      | Inr (w', s') \<Rightarrow> (case verify_data s' of Inl e \<Rightarrow> Inl e | Inr s'' \<Rightarrow> Inr (w', s'')))"

definition world_after_failed_cache_load :: "world \<Rightarrow> world" where
  "world_after_failed_cache_load w =
     (case scanner_cachedir w of Inl e \<Rightarrow> w | Inr (d, w') \<Rightarrow> w')"

definition load :: "world \<Rightarrow> sdc \<Rightarrow> exn + (world \<times> sdc)" where
  "load w s =
     (case load_try w s of
        Inl SignatureCacheMalformedException \<Rightarrow>
          (let w1 = world_after_failed_cache_load w in
           case load_from_defaults w1 s of
             Inl e \<Rightarrow> Inl e
           | Inr s' \<Rightarrow> (case write_to_cache w1 s' of Inl e \<Rightarrow> Inl e | Inr w2 \<Rightarrow> Inr (w2, s')))
      | r \<Rightarrow> r)"

section \<open>Source scanner: the disposition of a finding\<close>

subsection \<open>State and environment of \<^verbatim>\<open>scan_source\<close>\<close>

datatype level = Debug | Info | Warning | Error | Critical

text \<open>
  \<^verbatim>\<open>json_per_build\<close>: three lists of \<^verbatim>\<open>[message, path]\<close> entries.
\<close>

record report =
  errors :: "(string \<times> string) list"
  warnings :: "(string \<times> string) list"
  infos :: "(string \<times> string) list"

text \<open>
  The global \<^verbatim>\<open>options\<close>, when it is set: the attribute \<^verbatim>\<open>json\<close> (\<open>None\<close> when the
  namespace has none) and \<^verbatim>\<open>verbose\<close>.
\<close>

record opts =
  opt_json :: "bool option"
  opt_verbose :: bool

text \<open>
  What \<^verbatim>\<open>scan_source\<close> and its nested functions mutate: the two sets of policy keys
  that fired, the global \<^verbatim>\<open>json_per_build\<close> (the nested functions test it against
  \<^verbatim>\<open>None\<close>), the files on disk (by path), and the log.
\<close>

record scan_state =
  scanignore_worked :: "string set"
  scandelete_worked :: "string set"
  json_per_build :: "report option"
  on_disk :: "string set"
  logged :: "(level \<times> string) list"

text \<open>
  What they read and never change. \<^verbatim>\<open>scanignore\<close> and \<^verbatim>\<open>scandelete\<close> are the dicts
  returned by \<^verbatim>\<open>common.getpaths_map\<close> (policy entry to list of paths), in iteration order.
  \<^verbatim>\<open>gradle_signatures\<close> is \<^verbatim>\<open>_get_tool().regex['gradle_signatures']\<close>: signature to the
  \<^verbatim>\<open>match\<close> of its compiled expression. \<^verbatim>\<open>gradle_comment\<close> is the \<^verbatim>\<open>match\<close> of
  \<^verbatim>\<open>common.gradle_comment\<close>. \<^verbatim>\<open>build_gradle\<close> is \<^verbatim>\<open>build.gradle\<close>, the flavours.
  \<^verbatim>\<open>re_compile_ignorecase\<close> gives, for a pattern text, the \<^verbatim>\<open>match\<close> of
  \<^verbatim>\<open>re.compile(pattern, re.IGNORECASE)\<close>: the flavours are put into pattern texts as they
  are, so what they mean is for \<^verbatim>\<open>re\<close> to say. \<^verbatim>\<open>common\<close>, the signature data, the build
  metadata and \<^verbatim>\<open>re\<close> are not part of this file, so these are parameters.
\<close>

record scan_env =
  scanignore :: "(string \<times> string list) list"
  scandelete :: "(string \<times> string list) list"
  options :: "opts option"
  gradle_signatures :: "(string \<times> (string \<Rightarrow> bool)) list"
  gradle_comment :: "string \<Rightarrow> bool"
  build_gradle :: "string list"
  re_compile_ignorecase :: "string \<Rightarrow> string \<Rightarrow> bool"

subsection \<open>\<^verbatim>\<open>toignore\<close> and \<^verbatim>\<open>todelete\<close>\<close>

text \<open>
  The two nested loops of \<^verbatim>\<open>toignore\<close> and \<^verbatim>\<open>todelete\<close>: the first entry, in the dict's
  order, one of whose paths is a prefix of the path (\<^verbatim>\<open>startswith\<close>).
\<close>

fun first_match :: "(string \<times> string list) list \<Rightarrow> string \<Rightarrow> string option" where
  "first_match [] path = None"
| "first_match ((k, paths) # rest) path =
     (if \<exists>p \<in> set paths. prefix p path then Some k else first_match rest path)"

definition toignore :: "scan_env \<Rightarrow> string \<Rightarrow> scan_state \<Rightarrow> bool \<times> scan_state" where
  "toignore env path_in_build_dir st =
     (case first_match (scanignore env) path_in_build_dir of
        Some k \<Rightarrow> (True, st\<lparr>scanignore_worked := insert k (scanignore_worked st)\<rparr>)
      | None \<Rightarrow> (False, st))"

definition todelete :: "scan_env \<Rightarrow> string \<Rightarrow> scan_state \<Rightarrow> bool \<times> scan_state" where
  "todelete env path_in_build_dir st =
     (case first_match (scandelete env) path_in_build_dir of
        Some k \<Rightarrow> (True, st\<lparr>scandelete_worked := insert k (scandelete_worked st)\<rparr>)
      | None \<Rightarrow> (False, st))"

subsection \<open>The problem handlers\<close>

definition logging :: "level \<Rightarrow> string \<Rightarrow> scan_state \<Rightarrow> scan_state" where
  "logging lvl msg st = st\<lparr>logged := logged st @ [(lvl, msg)]\<rparr>"

definition append_info :: "string \<times> string \<Rightarrow> report \<Rightarrow> report" where
  "append_info e r = r\<lparr>infos := infos r @ [e]\<rparr>"

definition append_warning :: "string \<times> string \<Rightarrow> report \<Rightarrow> report" where
  "append_warning e r = r\<lparr>warnings := warnings r @ [e]\<rparr>"

definition append_error :: "string \<times> string \<Rightarrow> report \<Rightarrow> report" where
  "append_error e r = r\<lparr>errors := errors r @ [e]\<rparr>"

text \<open>\<^verbatim>\<open>if json_per_build is not None: json_per_build[...].append(...)\<close>\<close>

definition if_json_per_build :: "(report \<Rightarrow> report) \<Rightarrow> scan_state \<Rightarrow> scan_state" where
  "if_json_per_build f st = st\<lparr>json_per_build := map_option f (json_per_build st)\<rparr>"

definition ignoring_msg :: "string \<Rightarrow> string \<Rightarrow> string" where
  "ignoring_msg what path_in_build_dir = ''Ignoring '' @ what @ '' at '' @ path_in_build_dir"

definition removing_msg :: "string \<Rightarrow> string \<Rightarrow> string" where
  "removing_msg what path_in_build_dir = ''Removing '' @ what @ '' at '' @ path_in_build_dir"

definition found_msg :: "string \<Rightarrow> string \<Rightarrow> string" where
  "found_msg what path_in_build_dir = ''Found '' @ what @ '' at '' @ path_in_build_dir"

definition ignoreproblem :: "string \<Rightarrow> string \<Rightarrow> scan_state \<Rightarrow> nat \<times> scan_state" where
  "ignoreproblem what path_in_build_dir st =
     (let msg = ignoring_msg what path_in_build_dir;
          st1 = logging Info msg st;
          st2 = if_json_per_build (append_info (msg, path_in_build_dir)) st1
      in (0, st2))"

text \<open>
  \<^verbatim>\<open>os.remove\<close> on the files of the tree: it removes a file that is there and raises
  \<^verbatim>\<open>FileNotFoundError\<close> for one that is not.
\<close>

definition os_remove :: "string \<Rightarrow> string set \<Rightarrow> exn + string set" where
  "os_remove filepath disk =
     (if filepath \<in> disk then Inr (disk - {filepath}) else Inl FileNotFoundError)"

text \<open>
  \<^verbatim>\<open>removeproblem\<close>: the \<^verbatim>\<open>try\<close> handles \<^verbatim>\<open>FileNotFoundError\<close> with \<^verbatim>\<open>pass\<close>; any other
  exception of \<^verbatim>\<open>os.remove\<close> would leave the function.
\<close>

definition removeproblem ::
  "string \<Rightarrow> string \<Rightarrow> string \<Rightarrow> scan_state \<Rightarrow> exn + (nat \<times> scan_state)" where
  "removeproblem what path_in_build_dir filepath st =
     (let msg = removing_msg what path_in_build_dir;
          st1 = logging Info msg st;
          st2 = if_json_per_build (append_info (msg, path_in_build_dir)) st1
      in case os_remove filepath (on_disk st2) of
           Inr disk \<Rightarrow> Inr (0, st2\<lparr>on_disk := disk\<rparr>)
         | Inl FileNotFoundError \<Rightarrow> Inr (0, st2)
         | Inl e \<Rightarrow> Inl e)"

definition warnproblem :: "scan_env \<Rightarrow> string \<Rightarrow> string \<Rightarrow> scan_state \<Rightarrow> nat \<times> scan_state" where
  "warnproblem env what path_in_build_dir st =
     (case toignore env path_in_build_dir st of
        (True, st1) \<Rightarrow> (0, st1)
      | (False, st1) \<Rightarrow>
          (let st2 = logging Warning (found_msg what path_in_build_dir) st1;
               st3 = if_json_per_build (append_warning (what, path_in_build_dir)) st2
           in (0, st3)))"

text \<open>\<^verbatim>\<open>options and 'json' in vars(options) and options.json\<close>\<close>

definition options_json :: "scan_env \<Rightarrow> bool" where
  "options_json env = (case options env of None \<Rightarrow> False | Some ops \<Rightarrow> opt_json ops = Some True)"

text \<open>\<^verbatim>\<open>options and (options.verbose or not ('json' in vars(options) and options.json))\<close>\<close>

definition options_log_errors :: "scan_env \<Rightarrow> bool" where
  "options_log_errors env =
     (case options env of None \<Rightarrow> False | Some ops \<Rightarrow> opt_verbose ops \<or> \<not> (opt_json ops = Some True))"

text \<open>\<^verbatim>\<open>'src/test' in path_in_build_dir or '/test/' in path_in_build_dir\<close>\<close>

definition in_test_path :: "string \<Rightarrow> bool" where
  "in_test_path path_in_build_dir =
     (sublist ''src/test'' path_in_build_dir \<or> sublist ''/test/'' path_in_build_dir)"

text \<open>
  \<^verbatim>\<open>handleproblem\<close>. On the last path \<^verbatim>\<open>json_per_build['errors']\<close> is read without the
  \<^verbatim>\<open>None\<close> test of the other handlers: with \<^verbatim>\<open>json_per_build\<close> \<^verbatim>\<open>None\<close> it raises
  \<^verbatim>\<open>TypeError\<close>.
\<close>

definition handleproblem ::
  "scan_env \<Rightarrow> string \<Rightarrow> string \<Rightarrow> string \<Rightarrow> scan_state \<Rightarrow> exn + (nat \<times> scan_state)" where
  "handleproblem env what path_in_build_dir filepath st =
     (case toignore env path_in_build_dir st of
        (True, st1) \<Rightarrow> Inr (ignoreproblem what path_in_build_dir st1)
      | (False, st1) \<Rightarrow>
          (case todelete env path_in_build_dir st1 of
             (True, st2) \<Rightarrow> removeproblem what path_in_build_dir filepath st2
           | (False, st2) \<Rightarrow>
               if in_test_path path_in_build_dir
               then Inr (warnproblem env what path_in_build_dir st2)
               else if options_json env \<and> json_per_build st2 = None then Inl TypeError
               else
                 (let st3 = (if options_json env
                             then if_json_per_build (append_error (what, path_in_build_dir)) st2
                             else st2);
                      st4 = (if options_log_errors env
                             then logging Error (found_msg what path_in_build_dir) st3
                             else st3)
                  in Inr (1, st4))))"

text \<open>The entries of \<^verbatim>\<open>json_per_build\<close>, none when it is \<^verbatim>\<open>None\<close>.\<close>

definition recorded_errors :: "scan_state \<Rightarrow> (string \<times> string) list" where
  "recorded_errors st = (case json_per_build st of None \<Rightarrow> [] | Some r \<Rightarrow> errors r)"

definition recorded_warnings :: "scan_state \<Rightarrow> (string \<times> string) list" where
  "recorded_warnings st = (case json_per_build st of None \<Rightarrow> [] | Some r \<Rightarrow> warnings r)"

definition recorded_infos :: "scan_state \<Rightarrow> (string \<times> string) list" where
  "recorded_infos st = (case json_per_build st of None \<Rightarrow> [] | Some r \<Rightarrow> infos r)"

section \<open>Regular expressions\<close>

text \<open>
  The expressions of the module are matched by Python's \<^verbatim>\<open>re\<close>, a backtracking matcher.
  They are embedded as syntax trees, and \<open>rmatch\<close> below is that matcher: for an
  expression and a subject it returns every way the expression matches at the start of
  the subject, in the order in which backtracking tries them, each as the rest of the
  subject and the text of group 1 (none of the expressions has more than one group, and
  none has a group inside a group). The first element is the match \<^verbatim>\<open>re\<close> reports.

  Strings are lists of \<open>char\<close>, the code points below 256.
\<close>

datatype regex =
    Lit string                  \<comment> \<open>a sequence of literal characters\<close>
  | LitI string                 \<comment> \<open>the same under \<^verbatim>\<open>re.IGNORECASE\<close>\<close>
  | Cls "char \<Rightarrow> bool"          \<comment> \<open>a character class, \<^verbatim>\<open>\s\<close>, \<^verbatim>\<open>\w\<close> or \<^verbatim>\<open>.\<close>\<close>
  | Eol                         \<comment> \<open>\<^verbatim>\<open>$\<close>\<close>
  | Seq regex regex
  | Alt regex regex             \<comment> \<open>\<^verbatim>\<open>a|b\<close>\<close>
  | Opt regex                   \<comment> \<open>\<^verbatim>\<open>a?\<close>\<close>
  | Star regex                  \<comment> \<open>\<^verbatim>\<open>a*\<close>\<close>
  | LazyStar regex              \<comment> \<open>\<^verbatim>\<open>a*?\<close>\<close>
  | Grp regex                   \<comment> \<open>\<^verbatim>\<open>(a)\<close>, the capturing group\<close>

text \<open>The group's text after two parts of a match: the later capture stands.\<close>

definition later :: "string option \<Rightarrow> string option \<Rightarrow> string option" where
  "later g1 g2 = (case g2 of None \<Rightarrow> g1 | Some x \<Rightarrow> Some x)"

definition carry ::
  "string option \<Rightarrow> (string \<times> string option) list \<Rightarrow> (string \<times> string option) list" where
  "carry g1 rs = map (\<lambda>r. (fst r, later g1 (snd r))) rs"

text \<open>
  Case folding of \<^verbatim>\<open>re.IGNORECASE\<close> for the letters A to Z; the expressions matched under
  it here are made of ASCII text.
\<close>

definition ascii_lower :: "char \<Rightarrow> char" where
  "ascii_lower c =
     (case map_of (zip ''ABCDEFGHIJKLMNOPQRSTUVWXYZ'' ''abcdefghijklmnopqrstuvwxyz'') c of
        Some l \<Rightarrow> l
      | None \<Rightarrow> c)"

definition newline :: char where
  "newline = CHR 0x0A"

text \<open>
  A repetition whose body matched without consuming anything is not repeated again, as
  in \<^verbatim>\<open>re\<close>. \<^verbatim>\<open>$\<close> (without \<^verbatim>\<open>re.MULTILINE\<close>) matches at the end and before a newline
  that ends the subject.
\<close>

function rmatch :: "regex \<Rightarrow> string \<Rightarrow> (string \<times> string option) list" where
  "rmatch (Lit w) s = (if prefix w s then [(drop (length w) s, None)] else [])"
| "rmatch (LitI w) s =
     (if length w \<le> length s \<and> map ascii_lower (take (length w) s) = map ascii_lower w
      then [(drop (length w) s, None)] else [])"
| "rmatch (Cls P) s = (case s of [] \<Rightarrow> [] | c # cs \<Rightarrow> if P c then [(cs, None)] else [])"
| "rmatch Eol s = (if s = [] \<or> s = [newline] then [(s, None)] else [])"
| "rmatch (Seq a b) s = concat (map (\<lambda>r. carry (snd r) (rmatch b (fst r))) (rmatch a s))"
| "rmatch (Alt a b) s = rmatch a s @ rmatch b s"
| "rmatch (Opt a) s = rmatch a s @ [(s, None)]"
| "rmatch (Star a) s =
     concat (map (\<lambda>r. if length (fst r) < length s
                       then carry (snd r) (rmatch (Star a) (fst r)) else [])
                 (rmatch a s))
     @ [(s, None)]"
| "rmatch (LazyStar a) s =
     (s, None) #
     concat (map (\<lambda>r. if length (fst r) < length s
                       then carry (snd r) (rmatch (LazyStar a) (fst r)) else [])
                 (rmatch a s))"
| "rmatch (Grp a) s =
     map (\<lambda>r. (fst r, Some (take (length s - length (fst r)) s))) (rmatch a s)"
  by pat_completeness auto
termination
  by (relation "measure size <*lex*> measure length") auto

text \<open>\<^verbatim>\<open>a+\<close>, a sequence of expressions and a choice between expressions.\<close>

definition Plus :: "regex \<Rightarrow> regex" where
  "Plus a = Seq a (Star a)"

fun seqs :: "regex list \<Rightarrow> regex" where
  "seqs [] = Lit []"
| "seqs [a] = a"
| "seqs (a # b # rest) = Seq a (seqs (b # rest))"

fun alts :: "regex list \<Rightarrow> regex" where
  "alts [] = Cls (\<lambda>c. False)"
| "alts [a] = a"
| "alts (a # b # rest) = Alt a (alts (b # rest))"

text \<open>
  \<^verbatim>\<open>pattern.match(s)\<close>: the first way to match at the start, or \<^verbatim>\<open>None\<close>. A leading
  \<^verbatim>\<open>^\<close> of an expression used with \<^verbatim>\<open>match\<close> adds nothing and is left out of the tree.
\<close>

definition re_match :: "regex \<Rightarrow> string \<Rightarrow> (string \<times> string option) option" where
  "re_match r s = (case rmatch r s of [] \<Rightarrow> None | x # xs \<Rightarrow> Some x)"

definition matches :: "regex \<Rightarrow> string \<Rightarrow> bool" where
  "matches r s = (re_match r s \<noteq> None)"

text \<open>The subject and its suffixes, longest first: where a search tries to match.\<close>

fun tails :: "'a list \<Rightarrow> 'a list list" where
  "tails [] = [[]]"
| "tails (x # xs) = (x # xs) # tails xs"

text \<open>\<^verbatim>\<open>pattern.search(s)\<close> as a truth value (none of the expressions looks behind).\<close>

definition searches :: "regex \<Rightarrow> string \<Rightarrow> bool" where
  "searches r s = (\<exists>t \<in> set (tails s). matches r t)"

definition group_text :: "string option \<Rightarrow> string" where
  "group_text g = (case g of None \<Rightarrow> [] | Some x \<Rightarrow> x)"

text \<open>
  \<^verbatim>\<open>pattern.findall(s)\<close> for an expression with one group: the group's text of every
  match, left to right, each search starting where the last match ended. After a match
  of the empty string the search moves on by one character (the expressions used with
  \<^verbatim>\<open>findall\<close> and \<^verbatim>\<open>sub\<close> here never match the empty string).
\<close>

function findall :: "regex \<Rightarrow> string \<Rightarrow> string list" where
  "findall r s =
     (case re_match r s of
        None \<Rightarrow> (case s of [] \<Rightarrow> [] | c # t \<Rightarrow> findall r t)
      | Some m \<Rightarrow>
          if length (fst m) < length s then group_text (snd m) # findall r (fst m)
          else group_text (snd m) # (case s of [] \<Rightarrow> [] | c # t \<Rightarrow> findall r t))"
  by pat_completeness auto
termination
  by (relation "measure (\<lambda>p. length (snd p))") auto

text \<open>\<^verbatim>\<open>re.sub(pattern, '', s)\<close>: every match, left to right, is cut out.\<close>

function sub_empty :: "regex \<Rightarrow> string \<Rightarrow> string" where
  "sub_empty r s =
     (case re_match r s of
        None \<Rightarrow> (case s of [] \<Rightarrow> [] | c # t \<Rightarrow> c # sub_empty r t)
      | Some m \<Rightarrow>
          if length (fst m) < length s then sub_empty r (fst m)
          else (case s of [] \<Rightarrow> [] | c # t \<Rightarrow> c # sub_empty r t))"
  by pat_completeness auto
termination
  by (relation "measure (\<lambda>p. length (snd p))") auto

subsection \<open>Character classes\<close>

definition code :: "char \<Rightarrow> nat" where
  "code c = of_char c"

text \<open>
  \<^verbatim>\<open>\s\<close> for a \<^verbatim>\<open>str\<close> pattern: the characters with \<^verbatim>\<open>str.isspace\<close>, of which these are
  below 256.
\<close>

definition is_space :: "char \<Rightarrow> bool" where
  "is_space c = (code c \<in> set [9, 10, 11, 12, 13, 28, 29, 30, 31, 32, 133, 160])"

text \<open>\<^verbatim>\<open>.\<close> with and without \<^verbatim>\<open>re.DOTALL\<close>.\<close>

definition any_char :: "char \<Rightarrow> bool" where
  "any_char c = True"

definition not_newline :: "char \<Rightarrow> bool" where
  "not_newline c = (c \<noteq> newline)"

definition dquote :: char where
  "dquote = CHR 0x22"

definition squote :: char where
  "squote = CHR 0x27"

definition is_quote :: "char \<Rightarrow> bool" where
  "is_quote c = (c = dquote \<or> c = squote)"

section \<open>The expressions of the module\<close>

subsection \<open>\<^verbatim>\<open>MAVEN_URL_REGEX\<close>\<close>

text \<open>
  \<^verbatim>\<open>\smaven\s*(?:{.*?(?:setUrl|url)|\((?:url)?)\s*=?\s*(?:uri)?\(?\s*["']?([^\s"']+)["']?[^})]*[)}]\<close>,
  compiled with \<^verbatim>\<open>re.DOTALL\<close>.
\<close>

definition url_char :: "char \<Rightarrow> bool" where
  "url_char c = (\<not> is_space c \<and> \<not> is_quote c)"

definition closing :: "char \<Rightarrow> bool" where
  "closing c = (c = CHR '')'' \<or> c = CHR ''}'')"

definition not_closing :: "char \<Rightarrow> bool" where
  "not_closing c = (\<not> (c = CHR ''}'' \<or> c = CHR '')''))"

definition MAVEN_URL_REGEX :: regex where
  "MAVEN_URL_REGEX =
     seqs [Cls is_space, Lit ''maven'', Star (Cls is_space),
           Alt (seqs [Lit ''{'', LazyStar (Cls any_char), Alt (Lit ''setUrl'') (Lit ''url'')])
               (seqs [Lit ''('', Opt (Lit ''url'')]),
           Star (Cls is_space), Opt (Lit ''=''), Star (Cls is_space),
           Opt (Lit ''uri''), Opt (Lit ''(''), Star (Cls is_space),
           Opt (Cls is_quote),
           Grp (Plus (Cls url_char)),
           Opt (Cls is_quote), Star (Cls not_closing), Cls closing]"

subsection \<open>Block comments\<close>

text \<open>\<^verbatim>\<open>/\*.*?\*/\<close> with \<^verbatim>\<open>re.DOTALL\<close>, the expression of the \<^verbatim>\<open>re.sub\<close> in \<^verbatim>\<open>scan_source\<close>.\<close>

definition block_comment :: regex where
  "block_comment = seqs [Lit ''/*'', LazyStar (Cls any_char), Lit ''*/'']"

subsection \<open>Notions used to state properties of the expressions\<close>





section \<open>Archive inspection: \<^verbatim>\<open>get_embedded_classes\<close>\<close>

subsection \<open>Files that may be ZIP containers\<close>

text \<open>
  What \<^verbatim>\<open>get_embedded_classes\<close> asks of a file. Each answer is a value or the exception
  that the call raises:
  \<^item> \<open>is_zipfile\<close>: what \<^verbatim>\<open>zipfile.is_zipfile(apk_fp)\<close> returns for the file opened as a member
    of an archive; reading the member to find the end record raises \<^verbatim>\<open>zlib.error\<close> when
    its compressed data is corrupt;
  \<^item> \<open>zip_infolist\<close>: the \<^verbatim>\<open>infolist()\<close> of \<^verbatim>\<open>zipfile.ZipFile(apkfile, 'r')\<close>, the members in
    their order; \<^verbatim>\<open>ZipFile\<close> raises \<^verbatim>\<open>BadZipFile(msg)\<close> for a file that is not a ZIP file or
    has a broken directory, and an \<^verbatim>\<open>OSError\<close> (\<^verbatim>\<open>FileNotFoundError\<close>, \<^verbatim>\<open>PermissionError\<close>) for
    a path that cannot be read;
  \<^item> \<open>magic\<close>: what \<^verbatim>\<open>fp.read(3)\<close> returns, the first three bytes;
  \<^item> \<open>dexdump_output\<close>: what \<^verbatim>\<open>dexdump\<close> prints when run on the extracted file (the
    \<^verbatim>\<open>output\<close> of \<^verbatim>\<open>common.SdkToolsPopen\<close>, a parameter of the model), or what \<^verbatim>\<open>extract\<close> or
    the tool raises.
  A member has its \<^verbatim>\<open>info.filename\<close>, the text \<open>shown\<close> that \<^verbatim>\<open>%s\<close> makes of the member once
  opened (it stands for the nested \<^verbatim>\<open>apkfile\<close> in the messages), and its content: a file,
  or the exception that \<^verbatim>\<open>apk_zip.open\<close> raises for it (\<^verbatim>\<open>BadZipFile\<close> for a broken header,
  \<^verbatim>\<open>RuntimeError\<close> for an encrypted member).

  The type is a codatatype: containers may be nested without end (a ZIP file can
  contain itself), so nothing about \<^verbatim>\<open>get_embedded_classes\<close> rests on the nesting being
  finite.
\<close>

codatatype zfile =
  ZFile (is_zipfile: "exn + bool")
        (zip_infolist: "exn + (string \<times> string \<times> (exn + zfile)) list")
        (magic: "exn + string")
        (dexdump_output: "exn + string")

type_synonym zentry = "string \<times> string \<times> (exn + zfile)"

definition info_filename :: "zentry \<Rightarrow> string" where
  "info_filename e = fst e"

definition shown :: "zentry \<Rightarrow> string" where
  "shown e = fst (snd e)"

definition content :: "zentry \<Rightarrow> exn + zfile" where
  "content e = snd (snd e)"

text \<open>
  \<^verbatim>\<open>apk_zip.open(info.filename)\<close> opens by name: of several members with one name, the
  archive's name table holds the last; a name that is not in the table is a \<^verbatim>\<open>KeyError\<close>.
\<close>

fun open_by_name :: "zentry list \<Rightarrow> string \<Rightarrow> exn + zfile" where
  "open_by_name [] n = Inl KeyError"
| "open_by_name (e # es) n =
     (if n \<in> set (map info_filename es) then open_by_name es n
      else if info_filename e = n then content e
      else Inl KeyError)"

subsection \<open>The expressions\<close>

text \<open>\<^verbatim>\<open>.*\.(aab|aar|apk|apks|jar|war|xapk|zip)$\<close>\<close>

definition archive_regex :: regex where
  "archive_regex =
     seqs [Star (Cls not_newline), Lit ''.'',
           Grp (alts [Lit ''aab'', Lit ''aar'', Lit ''apk'', Lit ''apks'', Lit ''jar'',
                      Lit ''war'', Lit ''xapk'', Lit ''zip'']),
           Eol]"

text \<open>\<^verbatim>\<open>classes.*\.dex\<close>\<close>

definition class_regex :: regex where
  "class_regex = seqs [Lit ''classes'', Star (Cls not_newline), Lit ''.dex'']"

text \<open>
  \<^verbatim>\<open>[A-Z]+((?:\w+\/)+\w+)\<close>. \<^verbatim>\<open>\w\<close> for a \<^verbatim>\<open>str\<close> pattern: the alphanumeric characters and
  the underscore, of which these are below 256.
\<close>

definition is_upper :: "char \<Rightarrow> bool" where
  "is_upper c = (65 \<le> code c \<and> code c \<le> 90)"

definition is_word :: "char \<Rightarrow> bool" where
  "is_word c =
     (let n = code c in
        (48 \<le> n \<and> n \<le> 57) \<or> (65 \<le> n \<and> n \<le> 90) \<or> n = 95 \<or> (97 \<le> n \<and> n \<le> 122)
        \<or> n \<in> set [170, 178, 179, 181, 185, 186, 188, 189, 190]
        \<or> (192 \<le> n \<and> n \<le> 214) \<or> (216 \<le> n \<and> n \<le> 246) \<or> (248 \<le> n \<and> n \<le> 255))"

definition dexdump_class_regex :: regex where
  "dexdump_class_regex =
     seqs [Plus (Cls is_upper),
           Grp (seqs [Plus (seqs [Plus (Cls is_word), Lit ''/'']), Plus (Cls is_word)])]"

subsection \<open>The messages\<close>

definition max_depth_msg :: "string \<Rightarrow> string" where
  "max_depth_msg apkfile = ''Max recursion depth in ZIP file reached: '' @ apkfile"

definition problem_msg :: "string \<Rightarrow> string \<Rightarrow> string" where
  "problem_msg apkfile ex = ''Problem with ZIP file: '' @ apkfile @ '', error '' @ ex"

definition no_extension_msg :: "string \<Rightarrow> string" where
  "no_extension_msg n = ''ZIP file without proper file extension: '' @ n"

definition fake_name_msg :: "string \<Rightarrow> string" where
  "fake_name_msg n = ''DEX file with fake name: '' @ n"

definition not_a_zip :: string where
  "not_a_zip = ''File is not a zip file''"

subsection \<open>The loop over the members\<close>

text \<open>
  The body of the \<^verbatim>\<open>for\<close> loop, with the recursive call as the parameter \<open>nested\<close>. The
  result is \<open>Inl e\<close> when the exception \<open>e\<close> leaves the loop, and the set \<^verbatim>\<open>classes\<close>
  otherwise.
\<close>

fun scan_entries ::
  "(string \<Rightarrow> zfile \<Rightarrow> exn + string set) \<Rightarrow> zentry list \<Rightarrow> zentry list \<Rightarrow> string set
   \<Rightarrow> exn + string set" where
  "scan_entries nested infolist [] classes = Inr classes"
| "scan_entries nested infolist (info # rest) classes =
     (case content info of
        Inl e \<Rightarrow> Inl e
      | Inr apk_fp \<Rightarrow>
          (case is_zipfile apk_fp of
             Inl e \<Rightarrow> Inl e
           | Inr z \<Rightarrow>
               if z
               then (case nested (shown info) apk_fp of
                       Inl e \<Rightarrow> Inl e
                     | Inr found \<Rightarrow>
                         scan_entries nested infolist rest
                           (classes \<union> found
                            \<union> (if searches archive_regex (info_filename info) then {}
                               else {no_extension_msg (info_filename info)})))
               else
                 (case open_by_name infolist (info_filename info) of
                    Inl e \<Rightarrow> Inl e
                  | Inr fp \<Rightarrow>
                      (case magic fp of
                         Inl e \<Rightarrow> Inl e
                       | Inr file_magic \<Rightarrow>
                           if file_magic = ''dex''
                           then (case dexdump_output apk_fp of
                                   Inl e \<Rightarrow> Inl e
                                 | Inr output \<Rightarrow>
                                     scan_entries nested infolist rest
                                       (classes
                                        \<union> (if searches class_regex (info_filename info) then {}
                                           else {fake_name_msg (info_filename info)})
                                        \<union> set (findall dexdump_class_regex output)))
                           else scan_entries nested infolist rest classes))))"

subsection \<open>\<^verbatim>\<open>get_embedded_classes\<close>\<close>

text \<open>
  \<^verbatim>\<open>except zipfile.BadZipFile as ex\<close>: a \<^verbatim>\<open>BadZipFile\<close> that leaves the \<^verbatim>\<open>try\<close> block becomes
  the set of the one message; every other exception leaves the function.
\<close>

definition except_BadZipFile :: "string \<Rightarrow> exn + string set \<Rightarrow> exn + string set" where
  "except_BadZipFile apkfile r =
     (case r of
        Inl (BadZipFile ex) \<Rightarrow> Inr {problem_msg apkfile ex}
      | Inl e \<Rightarrow> Inl e
      | Inr classes \<Rightarrow> Inr classes)"

text \<open>
  The recursion ends because the depth grows towards the bound: the measure is
  \<open>11 - depth\<close>, whatever the file.
\<close>

function get_embedded_classes :: "string \<Rightarrow> zfile \<Rightarrow> nat \<Rightarrow> exn + string set" where
  "get_embedded_classes apkfile f depth =
     (if depth > 10 then Inr {max_depth_msg apkfile}
      else except_BadZipFile apkfile
             (case zip_infolist f of
                Inl e \<Rightarrow> Inl e
              | Inr infolist \<Rightarrow>
                  scan_entries (\<lambda>name fp. get_embedded_classes name fp (Suc depth))
                    infolist infolist {}))"
  by pat_completeness auto
termination
  by (relation "measure (\<lambda>(apkfile, f, depth). 11 - depth)") auto

subsection \<open>Notions used to state properties of the inspection\<close>

text \<open>
  A member that can be read: opening it, asking whether it is a ZIP file, reading its
  first bytes and running \<^verbatim>\<open>dexdump\<close> on it raise nothing.
\<close>

definition readable :: "zentry \<Rightarrow> bool" where
  "readable e =
     (case content e of
        Inl x \<Rightarrow> False
      | Inr g \<Rightarrow> \<not> isl (is_zipfile g) \<and> \<not> isl (magic g) \<and> \<not> isl (dexdump_output g))"

text \<open>The member is a ZIP file: the loop descends into it.\<close>

definition zip_member :: "zentry \<Rightarrow> zfile option" where
  "zip_member e =
     (case content e of
        Inl x \<Rightarrow> None
      | Inr g \<Rightarrow> if is_zipfile g = Inr True then Some g else None)"

text \<open>
  \<open>sound n f\<close>: nothing raises in the container \<open>f\<close> and in its members, to \<open>n\<close> levels of
  nesting: \<^verbatim>\<open>ZipFile\<close> opens it, its members can be read, and those that are ZIP files are
  sound to \<open>n - 1\<close> levels.
\<close>

primrec sound :: "nat \<Rightarrow> zfile \<Rightarrow> bool" where
  "sound 0 f = True"
| "sound (Suc n) f =
     (case zip_infolist f of
        Inl x \<Rightarrow> False
      | Inr infolist \<Rightarrow>
          (\<forall>e \<in> set infolist. readable e
             \<and> (case zip_member e of None \<Rightarrow> True | Some g \<Rightarrow> sound n g)))"

text \<open>
  \<open>chain es f\<close>: the members \<open>es\<close> are ZIP files nested each in the one before, the first
  in the container \<open>f\<close>: a branch of the nesting.
\<close>

primrec chain :: "zentry list \<Rightarrow> zfile \<Rightarrow> bool" where
  "chain [] f = True"
| "chain (e # es) f =
     (case zip_infolist f of
        Inl x \<Rightarrow> False
      | Inr infolist \<Rightarrow>
          e \<in> set infolist
          \<and> (case zip_member e of None \<Rightarrow> False | Some g \<Rightarrow> chain es g))"

text \<open>
  A member of a container that is sound to \<open>n\<close> levels, and a member that raises
  \<^verbatim>\<open>BadZipFile\<close> when it is opened.
\<close>

definition sound_member :: "nat \<Rightarrow> zentry \<Rightarrow> bool" where
  "sound_member n e = (readable e \<and> (case zip_member e of None \<Rightarrow> True | Some g \<Rightarrow> sound n g))"

definition is_BadZipFile :: "exn \<Rightarrow> bool" where
  "is_BadZipFile e = (case e of BadZipFile ex \<Rightarrow> True | _ \<Rightarrow> False)"

definition bad_member :: "zentry \<Rightarrow> bool" where
  "bad_member e = (case content e of Inl x \<Rightarrow> is_BadZipFile x | Inr g \<Rightarrow> False)"

text \<open>A container holding one member, and \<open>n\<close> such containers around a file.\<close>

definition inner_entry :: "zfile \<Rightarrow> zentry" where
  "inner_entry f = (''inner.zip'', ''<inner.zip>'', Inr f)"

definition wrap :: "zfile \<Rightarrow> zfile" where
  "wrap f = ZFile (Inr True) (Inr [inner_entry f]) (Inr ''PK'') (Inr [])"

primrec wrapped :: "nat \<Rightarrow> zfile \<Rightarrow> zfile" where
  "wrapped 0 f = f"
| "wrapped (Suc n) f = wrap (wrapped n f)"

text \<open>The branch of \<open>wrapped n f\<close>: its \<open>n\<close> nested members, the outermost first.\<close>

primrec wrapped_chain :: "nat \<Rightarrow> zfile \<Rightarrow> zentry list" where
  "wrapped_chain 0 f = []"
| "wrapped_chain (Suc n) f = inner_entry (wrapped n f) # wrapped_chain n f"

definition plain_file :: zfile where
  "plain_file = ZFile (Inr False) (Inl (BadZipFile not_a_zip)) (Inr ''abc'') (Inr [])"

definition empty_zip :: zfile where
  "empty_zip = ZFile (Inr True) (Inr []) (Inr ''PK'') (Inr [])"

text \<open>A DEX file and an archive that holds it before a member that cannot be opened.\<close>

definition dex_file :: zfile where
  "dex_file =
     ZFile (Inr False) (Inl (BadZipFile not_a_zip)) (Inr ''dex'')
       (Inr ''  Class descriptor  : Lcom/evil/Tracker;'')"

definition broken_zip :: zfile where
  "broken_zip =
     ZFile (Inr True)
       (Inr [(''classes.dex'', ''<classes.dex>'', Inr dex_file),
             (''res.bin'', ''<res.bin>'', Inl (BadZipFile ''Bad magic number for file header''))])
       (Inr ''PK'') (Inr [])"

definition rejected_zip :: zfile where
  "rejected_zip =
     ZFile (Inr True) (Inl (BadZipFile ''Bad magic number for central directory''))
       (Inr ''PK'') (Inr [])"

text \<open>
  A path that cannot be read, an archive with a member whose compressed data is corrupt,
  and an archive with an encrypted member.
\<close>

definition unreadable_file :: zfile where
  "unreadable_file = ZFile (Inl PermissionError) (Inl PermissionError) (Inl PermissionError) (Inr [])"

definition corrupt_data_file :: zfile where
  "corrupt_data_file = ZFile (Inl ZlibError) (Inl ZlibError) (Inl ZlibError) (Inr [])"

definition corrupt_data_zip :: zfile where
  "corrupt_data_zip =
     ZFile (Inr True) (Inr [(''lib.bin'', ''<lib.bin>'', Inr corrupt_data_file)])
       (Inr ''PK'') (Inr [])"

definition encrypted_zip :: zfile where
  "encrypted_zip =
     ZFile (Inr True) (Inr [(''secret.bin'', ''<secret.bin>'', Inl RuntimeError)])
       (Inr ''PK'') (Inr [])"

text \<open>
  Eleven containers around an empty archive, put into a container beside a member that
  cannot be opened.
\<close>

definition deep_broken :: zfile where
  "deep_broken =
     ZFile (Inr True)
       (Inr [inner_entry (wrapped 10 empty_zip),
             (''res.bin'', ''<res.bin>'', Inl (BadZipFile ''Bad magic number for file header''))])
       (Inr ''PK'') (Inr [])"

section \<open>Binary scanner: \<^verbatim>\<open>scan_binary\<close>\<close>

text \<open>
  A tracker of the Exodus list (a named tuple); of its fields the scan reads
  \<^verbatim>\<open>code_signature\<close>.
\<close>

record tracker =
  tracker_name :: string
  code_signature :: string

text \<open>
  The first loop: one problem for every class name and every entry of
  \<^verbatim>\<open>_get_tool().regex['code_signatures']\<close> whose expression matches it. The table is a
  parameter (signature, and the \<^verbatim>\<open>match\<close> of its compiled expression): compiling
  arbitrary signature texts is outside the model.
\<close>

definition class_problems :: "(string \<times> (string \<Rightarrow> bool)) list \<Rightarrow> string set \<Rightarrow> nat" where
  "class_problems code_signatures result =
     (\<Sum>classname \<in> result. length (filter (\<lambda>sr. snd sr classname) code_signatures))"

text \<open>
  The list comprehension \<^verbatim>\<open>args\<close>: for every tracker, with its index, whose
  \<^verbatim>\<open>code_signature\<close> is longer than 3, the compiled expression at that index
  (\<^verbatim>\<open>extract_signatures[1][index]\<close>, an \<^verbatim>\<open>IndexError\<close> when the list is too short) and the
  tracker. The condition is tested before the element is built.
\<close>

fun tracker_args ::
  "nat \<Rightarrow> tracker list \<Rightarrow> (string \<Rightarrow> bool) list \<Rightarrow> exn + ((string \<Rightarrow> bool) \<times> tracker) list" where
  "tracker_args index [] compiled = Inr []"
| "tracker_args index (t # ts) compiled =
     (if length (code_signature t) > 3
      then if index < length compiled
           then (case tracker_args (Suc index) ts compiled of
                   Inl e \<Rightarrow> Inl e
                 | Inr args \<Rightarrow> Inr ((compiled ! index, t) # args))
           else Inl IndexError
      else tracker_args (Suc index) ts compiled)"

text \<open>\<^verbatim>\<open>_detect_tracker\<close>: the tracker when \<^verbatim>\<open>sig.search\<close> finds some class, else \<^verbatim>\<open>None\<close>.\<close>

definition detect_tracker :: "(string \<Rightarrow> bool) \<Rightarrow> tracker \<Rightarrow> string set \<Rightarrow> tracker option" where
  "detect_tracker sg t class_list = (if \<exists>clazz \<in> class_list. sg clazz then Some t else None)"

text \<open>
  \<^verbatim>\<open>scan_binary\<close>. \<^verbatim>\<open>extract_signatures\<close> is \<open>None\<close> when it is falsy (\<^verbatim>\<open>None\<close> or \<^verbatim>\<open>[]\<close>),
  else the pair of the trackers and their compiled expressions (the \<^verbatim>\<open>search\<close> of each).
  An exception of \<^verbatim>\<open>get_embedded_classes\<close> leaves the function. Logging does not bear on
  the count and is left out.
\<close>

definition scan_binary ::
  "(string \<times> (string \<Rightarrow> bool)) list \<Rightarrow> string \<Rightarrow> zfile
   \<Rightarrow> (tracker list \<times> (string \<Rightarrow> bool) list) option \<Rightarrow> exn + nat" where
  "scan_binary code_signatures apkfile f extract_signatures =
     (case get_embedded_classes apkfile f 0 of
        Inl e \<Rightarrow> Inl e
      | Inr result \<Rightarrow>
          (let problems = class_problems code_signatures result
           in case extract_signatures of
                None \<Rightarrow> Inr problems
              | Some (trackers, compiled) \<Rightarrow>
                  (case tracker_args 0 trackers compiled of
                     Inl e \<Rightarrow> Inl e
                   | Inr args \<Rightarrow>
                       Inr (problems
                            + length (filter (\<lambda>a. detect_tracker (fst a) (snd a) result \<noteq> None)
                                        args)))))"

text \<open>An archive with one DEX file, a tracker with a short signature and one with a long.\<close>

definition apk_with_dex :: zfile where
  "apk_with_dex =
     ZFile (Inr True) (Inr [(''classes.dex'', ''<classes.dex>'', Inr dex_file)]) (Inr ''PK'') (Inr [])"

definition short_tracker :: tracker where
  "short_tracker = \<lparr>tracker_name = ''Short'', code_signature = ''com''\<rparr>"

definition long_tracker :: tracker where
  "long_tracker = \<lparr>tracker_name = ''Evil'', code_signature = ''com/evil''\<rparr>"

section \<open>Source scanner: \<^verbatim>\<open>scan_source\<close>\<close>

subsection \<open>The source tree\<close>

text \<open>
  What the walk reads of a file: its name; whether it is a symbolic link
  (\<^verbatim>\<open>os.path.islink\<close>) or a regular file (\<^verbatim>\<open>os.path.isfile\<close>); whether \<^verbatim>\<open>is_executable\<close>
  holds; its bytes; its lines as text (\<^verbatim>\<open>readlines()\<close>); and whether \<^verbatim>\<open>imghdr.what\<close>
  recognises an image.
\<close>

record file_entry =
  curfile :: string
  is_link :: bool
  is_regular :: bool
  executable :: bool
  raw :: string
  text_lines :: "string list"
  is_image :: bool

text \<open>
  A directory as \<^verbatim>\<open>os.walk\<close> lists it: the names in \<^verbatim>\<open>files\<close>, and the directories in
  \<^verbatim>\<open>dirs\<close> that it descends into (it does not follow links).
\<close>

datatype dir = Dir "file_entry list" "(string \<times> dir) list"

text \<open>\<^verbatim>\<open>os.path.join\<close> of a directory and a name.\<close>

definition os_path_join :: "string \<Rightarrow> string \<Rightarrow> string" where
  "os_path_join a b =
     (if a = [] then b else if last a = CHR ''/'' then a @ b else a @ ''/'' @ b)"

subsection \<open>Tests on names and contents\<close>

definition allowlisted :: "string list" where
  "allowlisted = [''firebase-jobdispatcher'', ''com.firebaseui'', ''geofire-android'',
                  ''com.yandex.android:authsdk'', ''com.hypertrack:hyperlog'']"

definition is_allowlisted :: "string \<Rightarrow> bool" where
  "is_allowlisted s = (\<exists>al \<in> set allowlisted. sublist al s)"

definition suspects_found :: "scan_env \<Rightarrow> string \<Rightarrow> string list" where
  "suspects_found env s =
     map fst (filter (\<lambda>nr. snd nr s \<and> \<not> is_allowlisted s) (gradle_signatures env))"

text \<open>
  \<^verbatim>\<open>allowed_repos\<close>: \<^verbatim>\<open>^https://\<close>, the escaped repository and \<^verbatim>\<open>/*\<close>, and the same with
  \<^verbatim>\<open>file://\<close>; they are used with \<^verbatim>\<open>match\<close>.
\<close>

definition allowed_repos :: "regex list" where
  "allowed_repos =
     map (\<lambda>repo. Seq (Lit (''https://'' @ repo)) (Star (Lit ''/'')))
       [''repo1.maven.org/maven2'', ''jcenter.bintray.com'', ''jitpack.io'', ''www.jitpack.io'',
        ''repo.maven.apache.org/maven2'', ''oss.jfrog.org/artifactory/oss-snapshot-local'',
        ''oss.sonatype.org/content/repositories/snapshots'',
        ''oss.sonatype.org/content/repositories/releases'',
        ''oss.sonatype.org/content/groups/public'', ''clojars.org/repo'', ''repo.clojars.org'',
        ''s3.amazonaws.com/repo.commonsware.com'', ''plugins.gradle.org/m2'',
        ''maven.google.com'']
     @ map (\<lambda>repo. Seq (Lit (''file://'' @ repo)) (Star (Lit ''/'')))
       [''/usr/share/maven-repo'']"

definition allowed_repo :: "string \<Rightarrow> bool" where
  "allowed_repo url = (\<exists>r \<in> set allowed_repos. matches r url)"

text \<open>
  \<^verbatim>\<open>textchars\<close> and \<^verbatim>\<open>is_binary\<close>: some byte of the first 1024 is outside
  \<^verbatim>\<open>{7, 8, 9, 10, 12, 13, 27} | set(range(0x20, 0x100)) - {0x7f}\<close>.
\<close>

definition textchar :: "char \<Rightarrow> bool" where
  "textchar c =
     (code c \<in> set [7, 8, 9, 10, 12, 13, 27] \<or> (32 \<le> code c \<and> code c < 256 \<and> code c \<noteq> 127))"

definition is_binary :: "file_entry \<Rightarrow> bool" where
  "is_binary e = (\<exists>c \<in> set (take 1024 (raw e)). \<not> textchar c)"

text \<open>\<^verbatim>\<open>.*/drawable[^/]*/.*\.png$\<close> and \<^verbatim>\<open>.*/mipmap[^/]*/.*\.png$\<close>\<close>

definition not_slash :: "char \<Rightarrow> bool" where
  "not_slash c = (c \<noteq> CHR ''/'')"

definition safe_paths :: "regex list" where
  "safe_paths =
     [seqs [Star (Cls not_newline), Lit ''/drawable'', Star (Cls not_slash), Lit ''/'',
            Star (Cls not_newline), Lit ''.png'', Eol],
      seqs [Star (Cls not_newline), Lit ''/mipmap'', Star (Cls not_slash), Lit ''/'',
            Star (Cls not_newline), Lit ''.png'', Eol]]"

definition safe_path :: "string \<Rightarrow> bool" where
  "safe_path path_in_build_dir = (\<exists>sp \<in> set safe_paths. matches sp path_in_build_dir)"

text \<open>\<^verbatim>\<open>.*\.so(\..+)*$\<close>, for versioned shared objects too.\<close>

definition shared_object_regex :: regex where
  "shared_object_regex =
     seqs [Star (Cls not_newline), Lit ''.so'',
           Star (Grp (Seq (Lit ''.'') (Plus (Cls not_newline)))), Eol]"

text \<open>
  \<^verbatim>\<open>os.path.splitext(p)[1]\<close>: the text from the last dot of the last path component, when
  a character other than a dot stands before that dot in the component; else empty.
\<close>

definition basename :: "string \<Rightarrow> string" where
  "basename p = rev (takeWhile (\<lambda>c. c \<noteq> CHR ''/'') (rev p))"

definition splitext_ext :: "string \<Rightarrow> string" where
  "splitext_ext p =
     (let b = dropWhile (\<lambda>c. c = CHR ''.'') (basename p)
      in if CHR ''.'' \<in> set b then CHR ''.'' # rev (takeWhile (\<lambda>c. c \<noteq> CHR ''.'') (rev b))
         else [])"

text \<open>
  \<^verbatim>\<open>get_gradle_compile_commands\<close>: the pattern texts \<^verbatim>\<open>\s*\<close> followed by a flavour, a build
  type and a command, in the order of \<^verbatim>\<open>itertools.product\<close>, each compiled with
  \<^verbatim>\<open>re.IGNORECASE\<close>; \<^verbatim>\<open>is_used_by_gradle\<close>: some of them matches at the start of the line.
\<close>

definition compileCommands :: "string list" where
  "compileCommands = [''compile'', ''provided'', ''apk'', ''implementation'', ''classpath'',
                      ''api'', ''compileOnly'', ''runtimeOnly'']"

definition backslash :: char where
  "backslash = CHR 0x5C"

definition get_gradle_compile_commands :: "scan_env \<Rightarrow> (string \<Rightarrow> bool) list" where
  "get_gradle_compile_commands env =
     (let buildTypes = [[], ''release''];
          flavors = [[]] @ (if build_gradle env \<noteq> [] \<and> build_gradle env \<noteq> [''yes'']
                            then build_gradle env else []);
          commands = concat (map (\<lambda>f. concat (map (\<lambda>b. map (\<lambda>c. f @ b @ c) compileCommands)
                                                     buildTypes))
                               flavors)
      in map (\<lambda>c. re_compile_ignorecase env ([backslash] @ ''s*'' @ c)) commands)"

definition is_used_by_gradle :: "scan_env \<Rightarrow> string \<Rightarrow> bool" where
  "is_used_by_gradle env line = (\<exists>command \<in> set (get_gradle_compile_commands env). command line)"

text \<open>
  The URLs of a build script: the lines that \<^verbatim>\<open>common.gradle_comment\<close> does not match are
  joined, the block comments are cut out, and \<^verbatim>\<open>MAVEN_URL_REGEX.findall\<close> runs on the rest.
\<close>

definition noncomment_lines :: "scan_env \<Rightarrow> string list \<Rightarrow> string list" where
  "noncomment_lines env lines = filter (\<lambda>line. \<not> gradle_comment env line) lines"

definition no_comments :: "scan_env \<Rightarrow> string list \<Rightarrow> string" where
  "no_comments env lines = sub_empty block_comment (concat (noncomment_lines env lines))"

definition gradle_maven_urls :: "scan_env \<Rightarrow> string list \<Rightarrow> string list" where
  "gradle_maven_urls env lines = findall MAVEN_URL_REGEX (no_comments env lines)"

subsection \<open>The calls of the problem handlers for one file\<close>

text \<open>
  Which branch of the \<^verbatim>\<open>if\<close>/\<^verbatim>\<open>elif\<close> chain in the loop over \<^verbatim>\<open>files\<close> a file takes.
\<close>

datatype branch =
    Skipped | Build_tool | Apk | Static_lib | Aar | Class_file | Dex | Gzip | Shared_lib
  | Zip_archive | Jar | Java | Gradle | Maybe_binary | Executable | Other

definition file_branch :: "string \<Rightarrow> file_entry \<Rightarrow> branch" where
  "file_branch path_in_build_dir e =
     (let n = curfile e in
      if n = ''.DS_Store'' then Skipped
      else if is_link e then Skipped
      else if n \<in> set [''gradle-wrapper.jar'', ''gradlew'', ''gradlew.bat''] then Build_tool
      else if suffix ''.apk'' n then Apk
      else if suffix ''.a'' n then Static_lib
      else if suffix ''.aar'' n then Aar
      else if suffix ''.class'' n then Class_file
      else if suffix ''.dex'' n then Dex
      else if suffix ''.gz'' n then Gzip
      else if matches shared_object_regex n then Shared_lib
      else if suffix ''.zip'' n then Zip_archive
      else if suffix ''.jar'' n then Jar
      else if suffix ''.java'' n then Java
      else if suffix ''.gradle'' n \<or> suffix ''.gradle.kts'' n then Gradle
      else if splitext_ext path_in_build_dir \<in> set [[], ''.bin'', ''.out'', ''.exe''] then Maybe_binary
      else if executable e then Executable
      else Other)"

text \<open>
  A call of \<^verbatim>\<open>removeproblem\<close>, \<^verbatim>\<open>handleproblem\<close> or \<^verbatim>\<open>warnproblem\<close> with its arguments.
  Which calls the loop makes for a file, and in which order, is decided by the file as
  it was read before the first of them: no handler changes what a later test of that
  iteration reads. The model lists the calls of a file and then runs them.
\<close>

datatype call =
    Removeproblem string string string
  | Handleproblem string string string
  | Warnproblem string string

definition usual_suspect_msg :: "string \<Rightarrow> string" where
  "usual_suspect_msg n = ''usual suspect '' @ [squote] @ n @ [squote]"

definition unknown_maven_repo_msg :: "string \<Rightarrow> string" where
  "unknown_maven_repo_msg url = ''unknown maven repo '' @ [squote] @ url @ [squote]"

definition file_calls :: "scan_env \<Rightarrow> string \<Rightarrow> string \<Rightarrow> file_entry \<Rightarrow> call list" where
  "file_calls env root rel e =
     (let filepath = os_path_join root (curfile e);
          path_in_build_dir = os_path_join rel (curfile e);
          handle = (\<lambda>what. Handleproblem what path_in_build_dir filepath)
      in case file_branch path_in_build_dir e of
           Skipped \<Rightarrow> []
         | Build_tool \<Rightarrow> [Removeproblem (curfile e) path_in_build_dir filepath]
         | Apk \<Rightarrow> [Removeproblem ''Android APK file'' path_in_build_dir filepath]
         | Static_lib \<Rightarrow> [handle ''static library'']
         | Aar \<Rightarrow> [handle ''Android AAR library'']
         | Class_file \<Rightarrow> [handle ''Java compiled class'']
         | Dex \<Rightarrow> [handle ''Android DEX code'']
         | Gzip \<Rightarrow> [handle ''gzip file archive'']
         | Shared_lib \<Rightarrow> [handle ''shared library'']
         | Zip_archive \<Rightarrow> [handle ''ZIP file archive'']
         | Jar \<Rightarrow>
             map (\<lambda>n. handle (usual_suspect_msg n)) (suspects_found env (curfile e))
             @ [handle ''Java JAR file'']
         | Java \<Rightarrow>
             if is_regular e \<and> (\<exists>line \<in> set (text_lines e). sublist ''DexClassLoader'' line)
             then [handle ''DexClassLoader''] else []
         | Gradle \<Rightarrow>
             if is_regular e
             then concat (map (\<lambda>line. if is_used_by_gradle env line
                                       then map (\<lambda>n. handle (usual_suspect_msg n))
                                              (suspects_found env line)
                                       else [])
                              (text_lines e))
                  @ map (\<lambda>url. handle (unknown_maven_repo_msg url))
                      (filter (\<lambda>url. \<not> allowed_repo url) (gradle_maven_urls env (text_lines e)))
             else []
         | Maybe_binary \<Rightarrow> if is_binary e then [handle ''binary''] else []
         | Executable \<Rightarrow>
             if is_binary e \<and> \<not> (safe_path path_in_build_dir \<or> is_image e)
             then [Warnproblem ''executable binary, possibly code'' path_in_build_dir] else []
         | Other \<Rightarrow> [])"

subsection \<open>The walk\<close>

definition vcs_dirs :: "string list" where
  "vcs_dirs = [''.hg'', ''.git'', ''.svn'', ''.bzr'']"

text \<open>
  \<^verbatim>\<open>os.walk(build_dir, topdown=True)\<close> with the version control directories removed from
  \<^verbatim>\<open>dirs\<close>: the files of a directory, then its directories in turn. \<open>root\<close> is the
  directory's path and \<open>rel\<close> its path relative to \<^verbatim>\<open>build_dir\<close>, so that joined with a
  file name they are \<^verbatim>\<open>filepath\<close> and \<^verbatim>\<open>os.path.relpath(filepath, build_dir)\<close>.
\<close>

fun walk_calls :: "scan_env \<Rightarrow> string \<Rightarrow> string \<Rightarrow> dir \<Rightarrow> call list" where
  "walk_calls env root rel (Dir fs ds) =
     concat (map (file_calls env root rel) fs)
     @ concat (map (\<lambda>nd. walk_calls env (os_path_join root (fst nd)) (os_path_join rel (fst nd)) (snd nd))
                   (filter (\<lambda>nd. fst nd \<notin> set vcs_dirs) ds))"

subsection \<open>Running the calls, and \<^verbatim>\<open>scan_source\<close>\<close>

text \<open>
  The count grows by the result of \<^verbatim>\<open>handleproblem\<close>; the results of \<^verbatim>\<open>removeproblem\<close>
  and \<^verbatim>\<open>warnproblem\<close> are not used. An exception ends the scan.
\<close>

definition run_call :: "scan_env \<Rightarrow> call \<Rightarrow> nat \<times> scan_state \<Rightarrow> exn + (nat \<times> scan_state)" where
  "run_call env c cs =
     (case c of
        Removeproblem what p fp \<Rightarrow>
          (case removeproblem what p fp (snd cs) of
             Inl e \<Rightarrow> Inl e | Inr r \<Rightarrow> Inr (fst cs, snd r))
      | Handleproblem what p fp \<Rightarrow>
          (case handleproblem env what p fp (snd cs) of
             Inl e \<Rightarrow> Inl e | Inr r \<Rightarrow> Inr (fst cs + fst r, snd r))
      | Warnproblem what p \<Rightarrow> Inr (fst cs, snd (warnproblem env what p (snd cs))))"

fun run_calls :: "scan_env \<Rightarrow> call list \<Rightarrow> nat \<times> scan_state \<Rightarrow> exn + (nat \<times> scan_state)" where
  "run_calls env [] cs = Inr cs"
| "run_calls env (c # rest) cs =
     (case run_call env c cs of Inl e \<Rightarrow> Inl e | Inr cs' \<Rightarrow> run_calls env rest cs')"

text \<open>The policy entries that never fired, in the order of the dict.\<close>

definition unused_scanignore :: "scan_env \<Rightarrow> scan_state \<Rightarrow> string list" where
  "unused_scanignore env st = filter (\<lambda>p. p \<notin> scanignore_worked st) (map fst (scanignore env))"

definition unused_scandelete :: "scan_env \<Rightarrow> scan_state \<Rightarrow> string list" where
  "unused_scandelete env st = filter (\<lambda>p. p \<notin> scandelete_worked st) (map fst (scandelete env))"

definition unused_scanignore_msg :: "string \<Rightarrow> string" where
  "unused_scanignore_msg p = ''Unused scanignore path: '' @ p"

definition unused_scandelete_msg :: "string \<Rightarrow> string" where
  "unused_scandelete_msg p = ''Unused scandelete path: '' @ p"

text \<open>
  \<^verbatim>\<open>scan_source\<close>: the two sets of fired entries start empty; after the walk every entry
  of \<^verbatim>\<open>scanignore\<close>, then of \<^verbatim>\<open>scandelete\<close>, that is not in its set is logged as an error
  and counted.
\<close>

definition scan_start :: "scan_state \<Rightarrow> scan_state" where
  "scan_start st = st\<lparr>scanignore_worked := {}, scandelete_worked := {}\<rparr>"

definition scan_source :: "scan_env \<Rightarrow> string \<Rightarrow> dir \<Rightarrow> scan_state \<Rightarrow> exn + (nat \<times> scan_state)" where
  "scan_source env build_dir tree st =
     (case run_calls env (walk_calls env build_dir [] tree) (0, scan_start st) of
        Inl e \<Rightarrow> Inl e
      | Inr (count, st1) \<Rightarrow>
          (let ui = unused_scanignore env st1;
               ud = unused_scandelete env st1
           in Inr (count + length ui + length ud,
                   st1\<lparr>logged := logged st1
                           @ map (\<lambda>p. (Error, unused_scanignore_msg p)) ui
                           @ map (\<lambda>p. (Error, unused_scandelete_msg p)) ud\<rparr>)))"

text \<open>The path in the build directory that a call is about.\<close>

fun call_path :: "call \<Rightarrow> string" where
  "call_path (Removeproblem what p fp) = p"
| "call_path (Handleproblem what p fp) = p"
| "call_path (Warnproblem what p) = p"

text \<open>The paths, relative to the build directory, of the files that the walk visits.\<close>

fun walked_paths :: "string \<Rightarrow> dir \<Rightarrow> string list" where
  "walked_paths rel (Dir fs ds) =
     map (\<lambda>e. os_path_join rel (curfile e)) fs
     @ concat (map (\<lambda>nd. walked_paths (os_path_join rel (fst nd)) (snd nd))
                   (filter (\<lambda>nd. fst nd \<notin> set vcs_dirs) ds))"

text \<open>
  The policy entries that can fire on a list of calls: those that \<^verbatim>\<open>toignore\<close> or
  \<^verbatim>\<open>todelete\<close> finds first for the path of some call.
\<close>

definition fired :: "(string \<times> string list) list \<Rightarrow> call list \<Rightarrow> string set" where
  "fired pol calls = {k. \<exists>c \<in> set calls. first_match pol (call_path c) = Some k}"

section \<open>Concrete inputs\<close>

subsection \<open>A configured cache directory and signature files\<close>

definition cache_keys :: "world \<Rightarrow> string \<Rightarrow> string list" where
  "cache_keys w p = (case files w p of Some (Document (JObj kvs)) \<Rightarrow> map fst kvs | _ \<Rightarrow> [])"

definition example_config :: "string \<rightharpoonup> string" where
  "example_config = [''cachedir_scanner'' \<mapsto> ''cache'']"

definition example_defaults :: json where
  "example_defaults =
     JObj [(''version'', JInt 1), (''timestamp'', JStr ''2022-06-01T00:00:00''),
           (''signatures'', JObj [])]"

definition example_world :: "(string \<rightharpoonup> file_body) \<Rightarrow> json \<Rightarrow> world" where
  "example_world fs dflt =
     \<lparr>common_config = Some example_config, config = Some example_config, files = fs,
      dirs = {}, bundled = [''scanner.json'' \<mapsto> Document dflt]\<rparr>"

definition example_sdc :: "json \<Rightarrow> sdc" where
  "example_sdc d = \<lparr>name = ''Scanner signatures'', filename = ''scanner.json'', data = d\<rparr>"

definition example_signatures :: json where
  "example_signatures =
     JObj [(''tracker'', JObj [(''code_signatures'', JArr [JStr ''com/evil'']),
                               (''gradle_signatures'', JArr [JStr ''com.evil:sdk''])])]"

definition stale_version_doc :: json where
  "stale_version_doc =
     JObj [(''version'', JInt 2), (''timestamp'', JStr ''2022-06-01T00:00:00''),
           (''signatures'', example_signatures)]"

definition valid_doc :: json where
  "valid_doc =
     JObj [(''version'', JInt 1), (''timestamp'', JStr ''2022-06-01T00:00:00''),
           (''signatures'', example_signatures)]"

definition extra_key_doc :: json where
  "extra_key_doc =
     JObj [(''version'', JInt 1), (''timestamp'', JStr ''2022-06-01T00:00:00''),
           (''signatures'', example_signatures), (''comment'', JStr ''local notes'')]"

subsection \<open>A scan policy and four findings\<close>

text \<open>
  \<^verbatim>\<open>re.compile(pattern, re.IGNORECASE).match\<close> for the patterns that are \<^verbatim>\<open>\s*\<close> and then
  letters and digits, as those of the compile commands are when the build has no
  flavours.
\<close>

definition compile_plain :: "string \<Rightarrow> string \<Rightarrow> bool" where
  "compile_plain pattern =
     (if prefix ([backslash] @ ''s*'') pattern
      then matches (Seq (Star (Cls is_space)) (LitI (drop 3 pattern)))
      else matches (LitI pattern))"

definition example_env :: scan_env where
  "example_env =
     \<lparr>scanignore = [(''libs/ok'', [''libs/ok''])],
      scandelete = [(''build/tmp'', [''build/tmp''])],
      options = Some \<lparr>opt_json = Some True, opt_verbose = False\<rparr>,
      gradle_signatures = [],
      gradle_comment = (\<lambda>line. prefix ''//'' (dropWhile (\<lambda>c. c = CHR '' '') line)),
      build_gradle = [],
      re_compile_ignorecase = compile_plain\<rparr>"

definition empty_report :: report where
  "empty_report = \<lparr>errors = [], warnings = [], infos = []\<rparr>"

definition example_state :: "string set \<Rightarrow> scan_state" where
  "example_state disk =
     \<lparr>scanignore_worked = {}, scandelete_worked = {},
      json_per_build = Some empty_report, on_disk = disk, logged = []\<rparr>"

subsection \<open>A source tree\<close>

definition plain_entry :: "string \<Rightarrow> string list \<Rightarrow> file_entry" where
  "plain_entry n ls =
     \<lparr>curfile = n, is_link = False, is_regular = True, executable = False,
      raw = concat ls, text_lines = ls, is_image = False\<rparr>"

definition jar_tree :: dir where
  "jar_tree = Dir [plain_entry ''a.jar'' []] [(''.git'', Dir [plain_entry ''b.jar'' []] [])]"

subsection \<open>Build scripts\<close>







section \<open>Properties of the signature repository\<close>

lemmas sig_example_defs =
  example_world_def example_sdc_def example_config_def example_defaults_def
  example_signatures_def stale_version_doc_def valid_doc_def extra_key_doc_def cache_keys_def

lemma Path_cache: "Path ''cache'' = ''cache''"
  by code_simp

lemma path_join_cache: "path_join ''cache'' ''scanner.json'' = ''cache/scanner.json''"
  by code_simp

lemma path_join_trailing_slash:
  "path_join (Path ''cache/'') ''scanner.json'' = ''cache/scanner.json''"
  "path_join ''cache/'' ''scanner.json'' = ''cache/scanner.json''"
  by code_simp+

lemmas sig_defs =
  load_def load_try_def load_from_cache_def verify_data_def scanner_cachedir_def
  Path_cache path_join_cache valid_keys_def check_data_version_def data_get_def SCANNER_CACHE_VERSION_def
  write_to_cache_def load_from_defaults_def world_after_failed_cache_load_def

lemma scanner_cachedir_again:
  assumes "scanner_cachedir w = Inr (d, w')"
  shows "scanner_cachedir w' = Inr (d, w')"
  using assms by (auto simp: scanner_cachedir_def split: option.splits if_splits)

lemma scanner_cachedir_files_upd:
  assumes "scanner_cachedir w = Inr (d, w')"
  shows "scanner_cachedir (w\<lparr>files := f\<rparr>) = Inr (d, w'\<lparr>files := f\<rparr>)"
  using assms by (auto simp: scanner_cachedir_def split: option.splits if_splits)

text \<open>
  Claim C1: a cache file whose \<^verbatim>\<open>version\<close> differs from \<^verbatim>\<open>SCANNER_CACHE_VERSION\<close> is
  treated as malformed, so that \<^verbatim>\<open>load\<close> falls back to the bundled defaults and rewrites
  the cache.

  The code has the check (\<^verbatim>\<open>check_data_version\<close> raises the exception that \<^verbatim>\<open>load\<close>
  handles) but \<^verbatim>\<open>load\<close> never calls it. With a cache file of version 2, \<^verbatim>\<open>load\<close>
  keeps the file's data, the bundled defaults are not read and the cache is not
  rewritten, although \<^verbatim>\<open>check_data_version\<close> rejects that data.
\<close>

theorem load_keeps_other_version:
  "load (example_world [''cache/scanner.json'' \<mapsto> Document stale_version_doc] example_defaults)
        (example_sdc (JObj []))
   = Inr (example_world [''cache/scanner.json'' \<mapsto> Document stale_version_doc] example_defaults
            \<lparr>dirs := {''cache''}\<rparr>,
          example_sdc stale_version_doc)
   \<and> check_data_version (example_sdc stale_version_doc) = Inl SignatureCacheMalformedException"
  by (simp add: sig_example_defs sig_defs)

text \<open>
  Claim C3: for a schema-valid SignatureSet \<open>s\<close> (a dict with only the recognised top-level
  keys), with the cache directory configured, writing \<open>s\<close> to the cache and loading it
  back into a controller of the same file name, whatever data \<open>d0\<close> that controller held
  before, succeeds and yields the data of \<open>s\<close>, and so the same \<^verbatim>\<open>signatures\<close> mapping.
\<close>

theorem cache_roundtrip:
  assumes cfg: "scanner_cachedir w = Inr (d, w')"
    and obj: "data s = JObj kvs"
    and keys: "\<forall>k \<in> fst ` set kvs. k \<in> set valid_keys"
  shows "\<exists>w1 w2 s2. write_to_cache w s = Inr w1
           \<and> load w1 (s\<lparr>data := d0\<rparr>) = Inr (w2, s2)
           \<and> data s2 = data s
           \<and> data_get (data s2) ''signatures'' = data_get (data s) ''signatures''"
proof -
  let ?p = "path_join d (filename s)"
  let ?w1 = "w'\<lparr>files := (files w')(?p \<mapsto> Document (data s))\<rparr>"
  have w: "write_to_cache w s = Inr ?w1"
    using cfg by (simp add: write_to_cache_def)
  have c1: "scanner_cachedir ?w1 = Inr (d, ?w1)"
    using scanner_cachedir_files_upd[OF scanner_cachedir_again[OF cfg]] by simp
  have lc: "load_from_cache ?w1 (s\<lparr>data := d0\<rparr>) = Inr (?w1, s)"
    using c1 by (simp add: load_from_cache_def)
  have f: "filter (\<lambda>kv. fst kv \<in> set valid_keys) kvs = kvs"
    using keys by (auto simp: filter_id_conv)
  have v: "verify_data s = Inr s"
    using obj f by (simp add: verify_data_def)
  have "load ?w1 (s\<lparr>data := d0\<rparr>) = Inr (?w1, s)"
    using lc v by (simp add: load_def load_try_def)
  with w show ?thesis by auto
qed

theorem cache_roundtrip_witness:
  "\<exists>w1 w2 s2. write_to_cache (example_world Map.empty example_defaults) (example_sdc valid_doc) = Inr w1
       \<and> load w1 (example_sdc (JObj [])) = Inr (w2, s2)
       \<and> data s2 = valid_doc
       \<and> data_get (data s2) ''signatures'' = Inr (Some example_signatures)"
proof -
  let ?w = "example_world Map.empty example_defaults"
  let ?s = "example_sdc valid_doc"
  have cfg: "scanner_cachedir ?w = Inr (''cache'', ?w\<lparr>dirs := {''cache''}\<rparr>)"
    by (simp add: sig_example_defs sig_defs)
  have obj: "data ?s = JObj [(''version'', JInt 1), (''timestamp'', JStr ''2022-06-01T00:00:00''),
                             (''signatures'', example_signatures)]"
    by (simp add: example_sdc_def valid_doc_def)
  have keys: "\<forall>k \<in> fst ` set [(''version'', JInt 1), (''timestamp'', JStr ''2022-06-01T00:00:00''),
                                  (''signatures'', example_signatures)]. k \<in> set valid_keys"
    by (simp add: valid_keys_def)
  have s0: "?s\<lparr>data := JObj []\<rparr> = example_sdc (JObj [])"
    by (simp add: example_sdc_def)
  have sg: "data_get valid_doc ''signatures'' = Inr (Some example_signatures)"
    by (simp add: valid_doc_def data_get_def)
  have d: "data ?s = valid_doc"
    by (simp add: example_sdc_def)
  from cache_roundtrip [OF cfg obj keys, of "JObj []"] show ?thesis
    unfolding s0 d sg .
qed

text \<open>
  Claim C5, as stated: the cache-write operation persists only the keys \<^verbatim>\<open>timestamp\<close>,
  \<^verbatim>\<open>version\<close> and \<^verbatim>\<open>signatures\<close> of any data value. It does not: \<^verbatim>\<open>write_to_cache\<close>
  dumps the data as it is. A data value with a fourth key \<^verbatim>\<open>comment\<close> is written with
  that key, directly and also when \<^verbatim>\<open>load\<close> finds no cache file and writes bundled
  defaults that carry the key.
\<close>

theorem write_to_cache_keeps_unknown_key:
  "(case write_to_cache (example_world Map.empty example_defaults) (example_sdc extra_key_doc) of
      Inl e \<Rightarrow> False
    | Inr w1 \<Rightarrow> ''comment'' \<in> set (cache_keys w1 ''cache/scanner.json'')
               \<and> ''comment'' \<notin> set valid_keys)
   \<and> (case load (example_world Map.empty extra_key_doc) (example_sdc (JObj [])) of
      Inl e \<Rightarrow> False
    | Inr (w1, s1) \<Rightarrow> ''comment'' \<in> set (cache_keys w1 ''cache/scanner.json''))"
  by (simp add: sig_example_defs sig_defs)

text \<open>
  Claim C5, amended: \<^verbatim>\<open>write_to_cache\<close> persists the data unchanged; the keys other than
  \<^verbatim>\<open>timestamp\<close>, \<^verbatim>\<open>version\<close> and \<^verbatim>\<open>signatures\<close> are dropped by \<^verbatim>\<open>verify_data\<close>. So, with
  the cache directory configured, for every dict: the file written holds exactly the
  data, and the file written after \<^verbatim>\<open>verify_data\<close> holds the recognised keys only.
\<close>

theorem write_after_verify_recognised_keys_only:
  assumes cfg: "scanner_cachedir w = Inr (d, w')"
    and obj: "data s = JObj kvs"
  shows "\<exists>w1 s' w2.
           write_to_cache w s = Inr w1
         \<and> files w1 (path_join d (filename s)) = Some (Document (data s))
         \<and> verify_data s = Inr s'
         \<and> write_to_cache w s' = Inr w2
         \<and> files w2 (path_join d (filename s)) = Some (Document (data s'))
         \<and> set (cache_keys w2 (path_join d (filename s))) \<subseteq> set valid_keys
         \<and> data s' = JObj (filter (\<lambda>kv. fst kv \<in> set valid_keys) kvs)"
  using cfg obj
  by (auto simp: write_to_cache_def verify_data_def cache_keys_def)

theorem write_after_verify_recognised_keys_only_witness:
  "\<exists>w1 s' w2.
       write_to_cache (example_world Map.empty example_defaults) (example_sdc extra_key_doc) = Inr w1
     \<and> files w1 ''cache/scanner.json'' = Some (Document extra_key_doc)
     \<and> verify_data (example_sdc extra_key_doc) = Inr s'
     \<and> write_to_cache (example_world Map.empty example_defaults) s' = Inr w2
     \<and> files w2 ''cache/scanner.json'' = Some (Document valid_doc)
     \<and> cache_keys w2 ''cache/scanner.json'' = [''version'', ''timestamp'', ''signatures'']"
proof -
  let ?w = "example_world Map.empty example_defaults"
  let ?s = "example_sdc extra_key_doc"
  have cfg: "scanner_cachedir ?w = Inr (''cache'', ?w\<lparr>dirs := {''cache''}\<rparr>)"
    by (simp add: sig_example_defs sig_defs)
  have obj: "data ?s = JObj [(''version'', JInt 1), (''timestamp'', JStr ''2022-06-01T00:00:00''),
                             (''signatures'', example_signatures), (''comment'', JStr ''local notes'')]"
    by (simp add: example_sdc_def extra_key_doc_def)
  from write_after_verify_recognised_keys_only [OF cfg obj]
  obtain w1 s' w2 where h:
    "write_to_cache ?w ?s = Inr w1"
    "files w1 (path_join ''cache'' (filename ?s)) = Some (Document (data ?s))"
    "verify_data ?s = Inr s'"
    "write_to_cache ?w s' = Inr w2"
    "files w2 (path_join ''cache'' (filename ?s)) = Some (Document (data s'))"
    "data s' = JObj (filter (\<lambda>kv. fst kv \<in> set valid_keys)
        [(''version'', JInt 1), (''timestamp'', JStr ''2022-06-01T00:00:00''),
         (''signatures'', example_signatures), (''comment'', JStr ''local notes'')])"
    by blast
  have p: "path_join ''cache'' (filename ?s) = ''cache/scanner.json''"
    by (simp add: path_join_cache example_sdc_def)
  have d: "data s' = valid_doc"
    using h(6) by (simp add: valid_keys_def valid_doc_def)
  have k: "cache_keys w2 ''cache/scanner.json'' = [''version'', ''timestamp'', ''signatures'']"
    using h(5) d by (simp add: p cache_keys_def valid_doc_def)
  show ?thesis
    using h(1,2,3,4,5) d k unfolding p by (auto simp: example_sdc_def)
qed

section \<open>Properties of the disposition of a finding\<close>

lemma handleproblem_ignored:
  assumes "first_match (scanignore env) p = Some k"
  shows "handleproblem env what p fp st =
           Inr (0, st\<lparr>scanignore_worked := insert k (scanignore_worked st),
                       logged := logged st @ [(Info, ignoring_msg what p)],
                       json_per_build :=
                         map_option (append_info (ignoring_msg what p, p)) (json_per_build st)\<rparr>)"
  using assms
  by (simp add: handleproblem_def toignore_def ignoreproblem_def logging_def
      if_json_per_build_def Let_def)

lemma handleproblem_deleted:
  assumes "first_match (scanignore env) p = None" "first_match (scandelete env) p = Some k"
  shows "handleproblem env what p fp st =
           Inr (0, st\<lparr>scandelete_worked := insert k (scandelete_worked st),
                       logged := logged st @ [(Info, removing_msg what p)],
                       json_per_build :=
                         map_option (append_info (removing_msg what p, p)) (json_per_build st),
                       on_disk := on_disk st - {fp}\<rparr>)"
  using assms
  by (simp add: handleproblem_def toignore_def todelete_def removeproblem_def logging_def
      if_json_per_build_def os_remove_def Let_def)

lemma handleproblem_warned:
  assumes "first_match (scanignore env) p = None" "first_match (scandelete env) p = None"
    "in_test_path p"
  shows "handleproblem env what p fp st =
           Inr (0, st\<lparr>logged := logged st @ [(Warning, found_msg what p)],
                       json_per_build :=
                         map_option (append_warning (what, p)) (json_per_build st)\<rparr>)"
  using assms
  by (simp add: handleproblem_def toignore_def todelete_def warnproblem_def logging_def
      if_json_per_build_def Let_def)

lemma handleproblem_error:
  assumes "first_match (scanignore env) p = None" "first_match (scandelete env) p = None"
    "\<not> in_test_path p" "options_json env \<longrightarrow> json_per_build st \<noteq> None"
  shows "handleproblem env what p fp st =
           Inr (1, st\<lparr>json_per_build :=
                         (if options_json env
                          then map_option (append_error (what, p)) (json_per_build st)
                          else json_per_build st),
                       logged :=
                         (if options_log_errors env
                          then logged st @ [(Error, found_msg what p)] else logged st)\<rparr>)"
  using assms
  by (auto simp add: handleproblem_def toignore_def todelete_def logging_def
      if_json_per_build_def Let_def)

lemma removeproblem_eq:
  "removeproblem what p fp st =
     Inr (0, st\<lparr>logged := logged st @ [(Info, removing_msg what p)],
                 json_per_build :=
                   map_option (append_info (removing_msg what p, p)) (json_per_build st),
                 on_disk := on_disk st - {fp}\<rparr>)"
  by (simp add: removeproblem_def logging_def if_json_per_build_def os_remove_def Let_def)

lemmas recorded_defs =
  recorded_errors_def recorded_warnings_def recorded_infos_def
  append_info_def append_warning_def append_error_def

lemmas scan_example_defs = example_env_def example_state_def empty_report_def

text \<open>
  Claim C2: the precedence ignore, delete, test-path warning, hard error of
  \<^verbatim>\<open>handleproblem\<close>, for every finding (\<open>what\<close>, path \<open>p\<close> in the build directory, file
  path \<open>fp\<close>) and every state.
  \<^item> If a \<^verbatim>\<open>scanignore\<close> path is a prefix of \<open>p\<close>: the result is 0, an info entry is
    logged and recorded, no file is deleted, no error or warning is recorded.
  \<^item> Else if a \<^verbatim>\<open>scandelete\<close> path is a prefix of \<open>p\<close>: the result is 0, the file is no
    longer on disk, an info entry is logged and recorded, no error or warning is
    recorded.
  \<^item> Else if \<open>p\<close> contains \<^verbatim>\<open>src/test\<close> or \<^verbatim>\<open>/test/\<close>: the result is 0, a warning is logged
    and recorded, no file is deleted, no error is recorded.
  \<^item> Otherwise the result is 1, no file is deleted and nothing but errors is logged or
    recorded (\<^verbatim>\<open>json_per_build\<close> being a dict when \<^verbatim>\<open>options.json\<close> is set, as it is
    wherever this module binds it).
\<close>

theorem handleproblem_precedence:
  "(first_match (scanignore env) p \<noteq> None \<longrightarrow>
      (\<exists>st'. handleproblem env what p fp st = Inr (0, st')
         \<and> on_disk st' = on_disk st
         \<and> logged st' = logged st @ [(Info, ignoring_msg what p)]
         \<and> json_per_build st' =
             map_option (append_info (ignoring_msg what p, p)) (json_per_build st)
         \<and> recorded_errors st' = recorded_errors st
         \<and> recorded_warnings st' = recorded_warnings st))
   \<and> (first_match (scanignore env) p = None \<and> first_match (scandelete env) p \<noteq> None \<longrightarrow>
      (\<exists>st'. handleproblem env what p fp st = Inr (0, st')
         \<and> fp \<notin> on_disk st' \<and> on_disk st' = on_disk st - {fp}
         \<and> logged st' = logged st @ [(Info, removing_msg what p)]
         \<and> json_per_build st' =
             map_option (append_info (removing_msg what p, p)) (json_per_build st)
         \<and> recorded_errors st' = recorded_errors st
         \<and> recorded_warnings st' = recorded_warnings st))
   \<and> (first_match (scanignore env) p = None \<and> first_match (scandelete env) p = None
        \<and> in_test_path p \<longrightarrow>
      (\<exists>st'. handleproblem env what p fp st = Inr (0, st')
         \<and> on_disk st' = on_disk st
         \<and> logged st' = logged st @ [(Warning, found_msg what p)]
         \<and> json_per_build st' = map_option (append_warning (what, p)) (json_per_build st)
         \<and> recorded_errors st' = recorded_errors st))
   \<and> (first_match (scanignore env) p = None \<and> first_match (scandelete env) p = None
        \<and> \<not> in_test_path p \<and> (options_json env \<longrightarrow> json_per_build st \<noteq> None) \<longrightarrow>
      (\<exists>st'. handleproblem env what p fp st = Inr (1, st')
         \<and> on_disk st' = on_disk st
         \<and> recorded_warnings st' = recorded_warnings st
         \<and> recorded_infos st' = recorded_infos st
         \<and> recorded_errors st' =
             (if options_json env then recorded_errors st @ [(what, p)] else recorded_errors st)
         \<and> logged st' =
             (if options_log_errors env
              then logged st @ [(Error, found_msg what p)] else logged st)))"
proof (intro conjI impI)
  assume "first_match (scanignore env) p \<noteq> None"
  then obtain k where "first_match (scanignore env) p = Some k" by blast
  from handleproblem_ignored [OF this, of what fp st]
  show "\<exists>st'. handleproblem env what p fp st = Inr (0, st')
         \<and> on_disk st' = on_disk st
         \<and> logged st' = logged st @ [(Info, ignoring_msg what p)]
         \<and> json_per_build st' =
             map_option (append_info (ignoring_msg what p, p)) (json_per_build st)
         \<and> recorded_errors st' = recorded_errors st
         \<and> recorded_warnings st' = recorded_warnings st"
    by (auto simp: recorded_defs split: option.splits)
next
  assume "first_match (scanignore env) p = None \<and> first_match (scandelete env) p \<noteq> None"
  then obtain k where "first_match (scanignore env) p = None"
    "first_match (scandelete env) p = Some k" by blast
  from handleproblem_deleted [OF this, of what fp st]
  show "\<exists>st'. handleproblem env what p fp st = Inr (0, st')
         \<and> fp \<notin> on_disk st' \<and> on_disk st' = on_disk st - {fp}
         \<and> logged st' = logged st @ [(Info, removing_msg what p)]
         \<and> json_per_build st' =
             map_option (append_info (removing_msg what p, p)) (json_per_build st)
         \<and> recorded_errors st' = recorded_errors st
         \<and> recorded_warnings st' = recorded_warnings st"
    by (auto simp: recorded_defs split: option.splits)
next
  assume "first_match (scanignore env) p = None \<and> first_match (scandelete env) p = None
        \<and> in_test_path p"
  then have "first_match (scanignore env) p = None" "first_match (scandelete env) p = None"
    "in_test_path p" by blast+
  from handleproblem_warned [OF this, of what fp st]
  show "\<exists>st'. handleproblem env what p fp st = Inr (0, st')
         \<and> on_disk st' = on_disk st
         \<and> logged st' = logged st @ [(Warning, found_msg what p)]
         \<and> json_per_build st' = map_option (append_warning (what, p)) (json_per_build st)
         \<and> recorded_errors st' = recorded_errors st"
    by (auto simp: recorded_defs split: option.splits)
next
  assume "first_match (scanignore env) p = None \<and> first_match (scandelete env) p = None
        \<and> \<not> in_test_path p \<and> (options_json env \<longrightarrow> json_per_build st \<noteq> None)"
  then have "first_match (scanignore env) p = None" "first_match (scandelete env) p = None"
    "\<not> in_test_path p" "options_json env \<longrightarrow> json_per_build st \<noteq> None" by blast+
  from handleproblem_error [OF this, of what fp]
  show "\<exists>st'. handleproblem env what p fp st = Inr (1, st')
         \<and> on_disk st' = on_disk st
         \<and> recorded_warnings st' = recorded_warnings st
         \<and> recorded_infos st' = recorded_infos st
         \<and> recorded_errors st' =
             (if options_json env then recorded_errors st @ [(what, p)] else recorded_errors st)
         \<and> logged st' =
             (if options_log_errors env
              then logged st @ [(Error, found_msg what p)] else logged st)"
    using \<open>options_json env \<longrightarrow> json_per_build st \<noteq> None\<close>
    by (auto simp: recorded_defs split: option.splits)
qed

theorem handleproblem_precedence_witness:
  "(first_match (scanignore example_env) ''libs/ok/a.jar'' \<noteq> None
      \<and> (\<exists>st'. handleproblem example_env ''Java JAR file'' ''libs/ok/a.jar''
                  ''build/app/libs/ok/a.jar'' (example_state {''build/app/libs/ok/a.jar''})
                = Inr (0, st')
             \<and> on_disk st' = {''build/app/libs/ok/a.jar''}
             \<and> recorded_infos st'
                 = [(''Ignoring Java JAR file at libs/ok/a.jar'', ''libs/ok/a.jar'')]
             \<and> recorded_errors st' = []))
   \<and> (first_match (scandelete example_env) ''build/tmp/b.jar'' \<noteq> None
      \<and> (\<exists>st'. handleproblem example_env ''Java JAR file'' ''build/tmp/b.jar''
                  ''build/app/build/tmp/b.jar'' (example_state {''build/app/build/tmp/b.jar''})
                = Inr (0, st')
             \<and> on_disk st' = {}
             \<and> recorded_infos st'
                 = [(''Removing Java JAR file at build/tmp/b.jar'', ''build/tmp/b.jar'')]
             \<and> recorded_errors st' = [] \<and> recorded_warnings st' = []))
   \<and> (in_test_path ''app/src/test/c.jar''
      \<and> (\<exists>st'. handleproblem example_env ''Java JAR file'' ''app/src/test/c.jar''
                  ''build/app/app/src/test/c.jar'' (example_state {''build/app/app/src/test/c.jar''})
                = Inr (0, st')
             \<and> on_disk st' = {''build/app/app/src/test/c.jar''}
             \<and> recorded_warnings st' = [(''Java JAR file'', ''app/src/test/c.jar'')]
             \<and> recorded_errors st' = []))
   \<and> (\<not> in_test_path ''app/d.jar''
      \<and> (\<exists>st'. handleproblem example_env ''Java JAR file'' ''app/d.jar''
                  ''build/app/app/d.jar'' (example_state {''build/app/app/d.jar''})
                = Inr (1, st')
             \<and> on_disk st' = {''build/app/app/d.jar''}
             \<and> recorded_errors st' = [(''Java JAR file'', ''app/d.jar'')]
             \<and> logged st' = []))"
proof -
  have t: "in_test_path ''app/src/test/c.jar''"
    unfolding in_test_path_def by code_simp
  have nt: "\<not> in_test_path ''app/d.jar''"
    unfolding in_test_path_def by code_simp
  have oj: "options_json example_env" "\<not> options_log_errors example_env"
    by (simp_all add: example_env_def options_json_def options_log_errors_def)
  have a1: "first_match (scanignore example_env) ''libs/ok/a.jar'' \<noteq> None"
    by (simp add: example_env_def)
  from handleproblem_precedence [of example_env "''libs/ok/a.jar''" "''Java JAR file''"
      "''build/app/libs/ok/a.jar''" "example_state {''build/app/libs/ok/a.jar''}", THEN conjunct1, THEN mp, OF a1]
  obtain st1 where h1:
    "handleproblem example_env ''Java JAR file'' ''libs/ok/a.jar'' ''build/app/libs/ok/a.jar''
       (example_state {''build/app/libs/ok/a.jar''}) = Inr (0, st1)"
    "on_disk st1 = on_disk (example_state {''build/app/libs/ok/a.jar''})"
    "json_per_build st1 =
       map_option (append_info (ignoring_msg ''Java JAR file'' ''libs/ok/a.jar'', ''libs/ok/a.jar''))
         (json_per_build (example_state {''build/app/libs/ok/a.jar''}))"
    "recorded_errors st1 = recorded_errors (example_state {''build/app/libs/ok/a.jar''})"
    by (elim exE conjE)
  have c1: "on_disk st1 = {''build/app/libs/ok/a.jar''}"
    "recorded_infos st1 = [(''Ignoring Java JAR file at libs/ok/a.jar'', ''libs/ok/a.jar'')]"
    "recorded_errors st1 = []"
    using h1(2,3,4)
    by (simp_all add: example_state_def empty_report_def recorded_defs ignoring_msg_def)
  have a2: "first_match (scanignore example_env) ''build/tmp/b.jar'' = None
      \<and> first_match (scandelete example_env) ''build/tmp/b.jar'' \<noteq> None"
    by (simp add: example_env_def)
  from handleproblem_precedence [of example_env "''build/tmp/b.jar''" "''Java JAR file''"
      "''build/app/build/tmp/b.jar''" "example_state {''build/app/build/tmp/b.jar''}", THEN conjunct2, THEN conjunct1, THEN mp, OF a2]
  obtain st2 where h2:
    "handleproblem example_env ''Java JAR file'' ''build/tmp/b.jar'' ''build/app/build/tmp/b.jar''
       (example_state {''build/app/build/tmp/b.jar''}) = Inr (0, st2)"
    "on_disk st2 = on_disk (example_state {''build/app/build/tmp/b.jar''}) - {''build/app/build/tmp/b.jar''}"
    "json_per_build st2 =
       map_option (append_info (removing_msg ''Java JAR file'' ''build/tmp/b.jar'', ''build/tmp/b.jar''))
         (json_per_build (example_state {''build/app/build/tmp/b.jar''}))"
    "recorded_errors st2 = recorded_errors (example_state {''build/app/build/tmp/b.jar''})"
    "recorded_warnings st2 = recorded_warnings (example_state {''build/app/build/tmp/b.jar''})"
    by (elim exE conjE)
  have c2: "on_disk st2 = {}"
    "recorded_infos st2 = [(''Removing Java JAR file at build/tmp/b.jar'', ''build/tmp/b.jar'')]"
    "recorded_errors st2 = []" "recorded_warnings st2 = []"
    using h2(2,3,4,5)
    by (simp_all add: example_state_def empty_report_def recorded_defs removing_msg_def)
  have a3: "first_match (scanignore example_env) ''app/src/test/c.jar'' = None
      \<and> first_match (scandelete example_env) ''app/src/test/c.jar'' = None
      \<and> in_test_path ''app/src/test/c.jar''"
    using t by (simp add: example_env_def)
  from handleproblem_precedence [of example_env "''app/src/test/c.jar''" "''Java JAR file''"
      "''build/app/app/src/test/c.jar''" "example_state {''build/app/app/src/test/c.jar''}", THEN conjunct2, THEN conjunct2, THEN conjunct1, THEN mp, OF a3]
  obtain st3 where h3:
    "handleproblem example_env ''Java JAR file'' ''app/src/test/c.jar'' ''build/app/app/src/test/c.jar''
       (example_state {''build/app/app/src/test/c.jar''}) = Inr (0, st3)"
    "on_disk st3 = on_disk (example_state {''build/app/app/src/test/c.jar''})"
    "json_per_build st3 =
       map_option (append_warning (''Java JAR file'', ''app/src/test/c.jar''))
         (json_per_build (example_state {''build/app/app/src/test/c.jar''}))"
    "recorded_errors st3 = recorded_errors (example_state {''build/app/app/src/test/c.jar''})"
    by (elim exE conjE)
  have c3: "on_disk st3 = {''build/app/app/src/test/c.jar''}"
    "recorded_warnings st3 = [(''Java JAR file'', ''app/src/test/c.jar'')]"
    "recorded_errors st3 = []"
    using h3(2,3,4)
    by (simp_all add: example_state_def empty_report_def recorded_defs)
  have a4: "first_match (scanignore example_env) ''app/d.jar'' = None
      \<and> first_match (scandelete example_env) ''app/d.jar'' = None
      \<and> \<not> in_test_path ''app/d.jar''
      \<and> (options_json example_env \<longrightarrow>
            json_per_build (example_state {''build/app/app/d.jar''}) \<noteq> None)"
    using nt by (simp add: scan_example_defs)
  from handleproblem_precedence [of example_env "''app/d.jar''" "''Java JAR file''"
      "''build/app/app/d.jar''" "example_state {''build/app/app/d.jar''}", THEN conjunct2, THEN conjunct2, THEN conjunct2, THEN mp, OF a4]
  obtain st4 where h4:
    "handleproblem example_env ''Java JAR file'' ''app/d.jar'' ''build/app/app/d.jar''
       (example_state {''build/app/app/d.jar''}) = Inr (1, st4)"
    "on_disk st4 = on_disk (example_state {''build/app/app/d.jar''})"
    "recorded_errors st4 =
       (if options_json example_env
        then recorded_errors (example_state {''build/app/app/d.jar''}) @ [(''Java JAR file'', ''app/d.jar'')]
        else recorded_errors (example_state {''build/app/app/d.jar''}))"
    "logged st4 =
       (if options_log_errors example_env
        then logged (example_state {''build/app/app/d.jar''}) @ [(Error, found_msg ''Java JAR file'' ''app/d.jar'')]
        else logged (example_state {''build/app/app/d.jar''}))"
    by (elim exE conjE)
  have c4: "on_disk st4 = {''build/app/app/d.jar''}"
    "recorded_errors st4 = [(''Java JAR file'', ''app/d.jar'')]"
    "logged st4 = []"
    using h4(2,3,4) oj
    by (simp_all add: example_state_def empty_report_def recorded_defs)
  show ?thesis
  proof (intro conjI)
    show "first_match (scanignore example_env) ''libs/ok/a.jar'' \<noteq> None" by (rule a1)
    show "first_match (scandelete example_env) ''build/tmp/b.jar'' \<noteq> None"
      using a2 by (rule conjunct2)
    show "in_test_path ''app/src/test/c.jar''" by (rule t)
    show "\<not> in_test_path ''app/d.jar''" by (rule nt)
  qed (use h1(1) c1 h2(1) c2 h3(1) c3 h4(1) c4 in blast)+
qed

text \<open>
  Claim C9: deleting is idempotent with respect to the file's absence. When the file is
  not on disk, \<^verbatim>\<open>removeproblem\<close> still logs and records its info entry and returns 0, with
  no exception, and so does \<^verbatim>\<open>handleproblem\<close> for a finding that matches a \<^verbatim>\<open>scandelete\<close>
  path (and no \<^verbatim>\<open>scanignore\<close> path); no error is recorded. Two findings on the same file,
  one after the other, both return 0 and record two info entries, whether or not the file
  was there at first.
\<close>

theorem removeproblem_absent_file:
  "(fp \<notin> on_disk st \<longrightarrow>
      removeproblem what p fp st =
        Inr (0, st\<lparr>logged := logged st @ [(Info, removing_msg what p)],
                    json_per_build :=
                      map_option (append_info (removing_msg what p, p)) (json_per_build st)\<rparr>))
   \<and> (fp \<notin> on_disk st \<and> first_match (scanignore env) p = None
        \<and> first_match (scandelete env) p \<noteq> None \<longrightarrow>
      (\<exists>st'. handleproblem env what p fp st = Inr (0, st')
         \<and> on_disk st' = on_disk st
         \<and> logged st' = logged st @ [(Info, removing_msg what p)]
         \<and> json_per_build st' =
             map_option (append_info (removing_msg what p, p)) (json_per_build st)
         \<and> recorded_errors st' = recorded_errors st))
   \<and> (\<exists>st1 st2. removeproblem what p fp st = Inr (0, st1)
         \<and> fp \<notin> on_disk st1
         \<and> removeproblem what' p fp st1 = Inr (0, st2)
         \<and> on_disk st2 = on_disk st1
         \<and> logged st2 =
             logged st @ [(Info, removing_msg what p), (Info, removing_msg what' p)]
         \<and> json_per_build st2 =
             map_option (append_info (removing_msg what' p, p))
               (map_option (append_info (removing_msg what p, p)) (json_per_build st))
         \<and> recorded_errors st2 = recorded_errors st)"
proof (intro conjI impI)
  assume "fp \<notin> on_disk st"
  then show "removeproblem what p fp st =
        Inr (0, st\<lparr>logged := logged st @ [(Info, removing_msg what p)],
                    json_per_build :=
                      map_option (append_info (removing_msg what p, p)) (json_per_build st)\<rparr>)"
    by (simp add: removeproblem_eq)
next
  assume "fp \<notin> on_disk st \<and> first_match (scanignore env) p = None
        \<and> first_match (scandelete env) p \<noteq> None"
  then obtain k where a: "fp \<notin> on_disk st" and
    b: "first_match (scanignore env) p = None" "first_match (scandelete env) p = Some k"
    by blast
  from handleproblem_deleted [OF b, of what fp st] a
  show "\<exists>st'. handleproblem env what p fp st = Inr (0, st')
         \<and> on_disk st' = on_disk st
         \<and> logged st' = logged st @ [(Info, removing_msg what p)]
         \<and> json_per_build st' =
             map_option (append_info (removing_msg what p, p)) (json_per_build st)
         \<and> recorded_errors st' = recorded_errors st"
    by (auto simp: recorded_defs split: option.splits)
next
  show "\<exists>st1 st2. removeproblem what p fp st = Inr (0, st1)
         \<and> fp \<notin> on_disk st1
         \<and> removeproblem what' p fp st1 = Inr (0, st2)
         \<and> on_disk st2 = on_disk st1
         \<and> logged st2 =
             logged st @ [(Info, removing_msg what p), (Info, removing_msg what' p)]
         \<and> json_per_build st2 =
             map_option (append_info (removing_msg what' p, p))
               (map_option (append_info (removing_msg what p, p)) (json_per_build st))
         \<and> recorded_errors st2 = recorded_errors st"
    by (auto simp: removeproblem_eq recorded_defs split: option.splits)
qed


theorem removeproblem_absent_file_witness:
  "''build/app/gradlew'' \<notin> on_disk (example_state {})
   \<and> removeproblem ''gradlew'' ''gradlew'' ''build/app/gradlew'' (example_state {})
       = Inr (0, (example_state {})
               \<lparr>logged := [(Info, ''Removing gradlew at gradlew'')],
                json_per_build :=
                  Some (empty_report\<lparr>infos := [(''Removing gradlew at gradlew'', ''gradlew'')]\<rparr>)\<rparr>)
   \<and> first_match (scanignore example_env) ''build/tmp/build.gradle'' = None
   \<and> first_match (scandelete example_env) ''build/tmp/build.gradle'' \<noteq> None
   \<and> (\<exists>st'. handleproblem example_env ''unknown maven repo'' ''build/tmp/build.gradle''
                ''build/app/build/tmp/build.gradle'' (example_state {}) = Inr (0, st')
          \<and> on_disk st' = {}
          \<and> recorded_infos st' =
               [(''Removing unknown maven repo at build/tmp/build.gradle'',
                 ''build/tmp/build.gradle'')]
          \<and> recorded_errors st' = [])"
proof -
  let ?st = "example_state {}"
  let ?p = "''build/tmp/build.gradle''"
  let ?fp = "''build/app/build/tmp/build.gradle''"
  have a: "''build/app/gradlew'' \<notin> on_disk ?st"
    by (simp add: example_state_def)
  have b: "?fp \<notin> on_disk ?st \<and> first_match (scanignore example_env) ?p = None
      \<and> first_match (scandelete example_env) ?p \<noteq> None"
    by (simp add: scan_example_defs)
  from removeproblem_absent_file [of "''build/app/gradlew''" ?st "''gradlew''" "''gradlew''",
      THEN conjunct1, THEN mp, OF a]
  have c1: "removeproblem ''gradlew'' ''gradlew'' ''build/app/gradlew'' ?st
       = Inr (0, ?st
               \<lparr>logged := [(Info, ''Removing gradlew at gradlew'')],
                json_per_build :=
                  Some (empty_report\<lparr>infos := [(''Removing gradlew at gradlew'', ''gradlew'')]\<rparr>)\<rparr>)"
    by (simp add: scan_example_defs removing_msg_def append_info_def)
  from removeproblem_absent_file [of ?fp ?st "''unknown maven repo''" ?p example_env,
      THEN conjunct2, THEN conjunct1, THEN mp, OF b]
  obtain st' where h:
    "handleproblem example_env ''unknown maven repo'' ?p ?fp ?st = Inr (0, st')"
    "on_disk st' = on_disk ?st"
    "json_per_build st' =
       map_option (append_info (removing_msg ''unknown maven repo'' ?p, ?p)) (json_per_build ?st)"
    "recorded_errors st' = recorded_errors ?st"
    by (elim exE conjE)
  have c2: "on_disk st' = {}"
    "recorded_infos st' =
       [(''Removing unknown maven repo at build/tmp/build.gradle'', ''build/tmp/build.gradle'')]"
    "recorded_errors st' = []"
    using h(2,3,4)
    by (simp_all add: example_state_def empty_report_def recorded_defs removing_msg_def)
  show ?thesis
  proof (intro conjI)
    show "''build/app/gradlew'' \<notin> on_disk ?st" by (rule a)
    show "removeproblem ''gradlew'' ''gradlew'' ''build/app/gradlew'' ?st
       = Inr (0, ?st
               \<lparr>logged := [(Info, ''Removing gradlew at gradlew'')],
                json_per_build :=
                  Some (empty_report\<lparr>infos := [(''Removing gradlew at gradlew'', ''gradlew'')]\<rparr>)\<rparr>)"
      by (rule c1)
    show "first_match (scanignore example_env) ?p = None" using b by blast
    show "first_match (scandelete example_env) ?p \<noteq> None" using b by blast
    show "\<exists>st'. handleproblem example_env ''unknown maven repo'' ?p ?fp ?st = Inr (0, st')
          \<and> on_disk st' = {}
          \<and> recorded_infos st' =
               [(''Removing unknown maven repo at build/tmp/build.gradle'', ''build/tmp/build.gradle'')]
          \<and> recorded_errors st' = []"
      using h(1) c2 by blast
  qed
qed

section \<open>Properties of the matcher\<close>

declare rmatch.simps [simp del] findall.simps [simp del] sub_empty.simps [simp del]

lemma later_simps [simp]:
  "later g None = g" "later g (Some x) = Some x" "later None g = g"
  by (simp_all add: later_def split: option.splits)


lemma carry_simps [simp]:
  "carry g [] = []"
  "carry g (r # rs) = (fst r, later g (snd r)) # carry g rs"
  "carry g (xs @ ys) = carry g xs @ carry g ys"
  by (simp_all add: carry_def)

lemma carry_None [simp]: "carry None rs = rs"
  by (induction rs) simp_all


lemma carry_concat: "carry g (concat xss) = concat (map (carry g) xss)"
  by (induction xss) simp_all






lemma re_match_Seq_Lit:
  "re_match (Seq (Lit w) c) s = (if prefix w s then re_match c (drop (length w) s) else None)"
  unfolding re_match_def rmatch.simps by simp



















lemma findall_Nil: "findall r [] = (case re_match r [] of None \<Rightarrow> [] | Some m \<Rightarrow> [group_text (snd m)])"
  by (subst findall.simps) (simp split: option.splits)



lemma sub_empty_Nil: "sub_empty r [] = []"
  by (subst sub_empty.simps) (simp split: option.splits)

lemma sub_empty_no_match: "re_match r (c # t) = None \<Longrightarrow> sub_empty r (c # t) = c # sub_empty r t"
  by (subst sub_empty.simps) simp


lemma block_comment_no_opener:
  "\<not> prefix ''/*'' s \<Longrightarrow> re_match block_comment s = None"
  by (simp add: block_comment_def re_match_Seq_Lit)




lemma sub_empty_block_comment_none:
  assumes "\<not> sublist ''/*'' s"
  shows "sub_empty block_comment s = s"
  using assms
proof (induction s)
  case Nil
  show ?case by (simp add: sub_empty_Nil)
next
  case (Cons c s)
  have ns: "\<not> sublist ''/*'' s" and np: "\<not> prefix ''/*'' (c # s)"
    using Cons.prems by (auto simp: sublist_Cons_right)
  from sub_empty_no_match [OF block_comment_no_opener [OF np]] Cons.IH [OF ns]
  show ?case by simp
qed

section \<open>Properties of the archive inspection\<close>

declare get_embedded_classes.simps [simp del]

lemma get_embedded_classes_deep:
  "depth > 10 \<Longrightarrow> get_embedded_classes apkfile f depth = Inr {max_depth_msg apkfile}"
  by (subst get_embedded_classes.simps) simp

lemma except_BadZipFile_simps [simp]:
  "except_BadZipFile apkfile (Inr classes) = Inr classes"
  "except_BadZipFile apkfile (Inl (BadZipFile ex)) = Inr {problem_msg apkfile ex}"
  "\<not> is_BadZipFile e \<Longrightarrow> except_BadZipFile apkfile (Inl e) = Inl e"
  by (simp_all add: except_BadZipFile_def is_BadZipFile_def split: exn.splits)

lemma get_embedded_classes_open:
  "depth \<le> 10 \<Longrightarrow> zip_infolist f = Inr infolist \<Longrightarrow>
   get_embedded_classes apkfile f depth
   = except_BadZipFile apkfile
       (scan_entries (\<lambda>name fp. get_embedded_classes name fp (Suc depth)) infolist infolist {})"
  by (subst get_embedded_classes.simps) simp

lemma get_embedded_classes_raised:
  "depth \<le> 10 \<Longrightarrow> zip_infolist f = Inl e \<Longrightarrow>
   get_embedded_classes apkfile f depth = except_BadZipFile apkfile (Inl e)"
  by (subst get_embedded_classes.simps) simp

lemma open_by_name_member:
  "n \<in> set (map info_filename infolist)
   \<Longrightarrow> \<exists>e \<in> set infolist. info_filename e = n \<and> open_by_name infolist n = content e"
  by (induction infolist) auto

lemma readableD:
  assumes "readable e"
  obtains g z m out where "content e = Inr g" "is_zipfile g = Inr z" "magic g = Inr m"
    "dexdump_output g = Inr out"
proof -
  from assms obtain g where g: "content e = Inr g" "\<not> isl (is_zipfile g)" "\<not> isl (magic g)"
    "\<not> isl (dexdump_output g)"
    by (cases "content e") (simp_all add: readable_def)
  from g(2) obtain z where "is_zipfile g = Inr z" by (cases "is_zipfile g") simp_all
  moreover from g(3) obtain m where "magic g = Inr m" by (cases "magic g") simp_all
  moreover from g(4) obtain out where "dexdump_output g = Inr out"
    by (cases "dexdump_output g") simp_all
  ultimately show ?thesis using g(1) that by blast
qed

lemma zip_member_simps:
  "content e = Inr g \<Longrightarrow> is_zipfile g = Inr True \<Longrightarrow> zip_member e = Some g"
  "content e = Inr g \<Longrightarrow> is_zipfile g = Inr False \<Longrightarrow> zip_member e = None"
  by (simp_all add: zip_member_def)

lemma zip_member_SomeD:
  "zip_member e = Some g \<Longrightarrow> content e = Inr g \<and> is_zipfile g = Inr True"
  by (cases "content e") (simp_all add: zip_member_def split: if_splits)

lemma scan_entries_readable:
  assumes rd: "\<forall>e \<in> set infolist. readable e"
    and nested: "\<forall>e \<in> set infolist. \<forall>g. zip_member e = Some g
                  \<longrightarrow> (\<exists>found. nested (shown e) g = Inr found)"
    and sub: "set es \<subseteq> set infolist"
  shows "\<exists>classes. scan_entries nested infolist es acc = Inr classes \<and> acc \<subseteq> classes
           \<and> (\<forall>e \<in> set es. \<forall>g found. zip_member e = Some g \<and> nested (shown e) g = Inr found
                  \<longrightarrow> found \<subseteq> classes)"
  using sub
proof (induction es arbitrary: acc)
  case Nil
  show ?case by simp
next
  case (Cons info rest)
  then have info: "info \<in> set infolist" and rest: "set rest \<subseteq> set infolist" by auto
  from rd info have "readable info" by blast
  then obtain fp z m out where fp: "content info = Inr fp" "is_zipfile fp = Inr z"
    "magic fp = Inr m" "dexdump_output fp = Inr out"
    by (rule readableD)
  show ?case
  proof (cases z)
    case True
    have zm: "zip_member info = Some fp" using fp True by (simp add: zip_member_simps)
    with nested info obtain found where found: "nested (shown info) fp = Inr found" by blast
    let ?acc = "acc \<union> found
                  \<union> (if searches archive_regex (info_filename info) then {}
                     else {no_extension_msg (info_filename info)})"
    from Cons.IH [OF rest, of ?acc] obtain classes where
      c: "scan_entries nested infolist rest ?acc = Inr classes" "?acc \<subseteq> classes"
         "\<forall>e \<in> set rest. \<forall>g found. zip_member e = Some g \<and> nested (shown e) g = Inr found
            \<longrightarrow> found \<subseteq> classes"
      by blast
    have r: "scan_entries nested infolist (info # rest) acc = Inr classes"
      using fp True found c(1) by simp
    have a: "acc \<subseteq> classes" and f: "found \<subseteq> classes" using c(2) by auto
    have "\<forall>e \<in> set (info # rest). \<forall>g found. zip_member e = Some g \<and> nested (shown e) g = Inr found
            \<longrightarrow> found \<subseteq> classes"
      using c(3) zm found f by auto
    with r a show ?thesis by blast
  next
    case False
    have zm: "zip_member info = None" using fp False by (simp add: zip_member_simps)
    have "info_filename info \<in> set (map info_filename infolist)" using info by simp
    from open_by_name_member [OF this] obtain e' where
      e': "e' \<in> set infolist" "open_by_name infolist (info_filename info) = content e'"
      by blast
    from rd e'(1) have "readable e'" by blast
    then obtain fp2 z2 m2 out2 where fp2: "content e' = Inr fp2" "magic fp2 = Inr m2"
      by (rule readableD)
    let ?acc = "if m2 = ''dex''
                then acc \<union> (if searches class_regex (info_filename info) then {}
                            else {fake_name_msg (info_filename info)})
                         \<union> set (findall dexdump_class_regex out)
                else acc"
    from Cons.IH [OF rest, of ?acc] obtain classes where
      c: "scan_entries nested infolist rest ?acc = Inr classes" "?acc \<subseteq> classes"
         "\<forall>e \<in> set rest. \<forall>g found. zip_member e = Some g \<and> nested (shown e) g = Inr found
            \<longrightarrow> found \<subseteq> classes"
      by blast
    have r: "scan_entries nested infolist (info # rest) acc = Inr classes"
    proof (cases "m2 = ''dex''")
      case True
      then show ?thesis
        using fp \<open>\<not> z\<close> e'(2) fp2 c(1) by (cases "searches class_regex (info_filename info)") simp_all
    next
      case False
      then show ?thesis
        using fp \<open>\<not> z\<close> e'(2) fp2 c(1) by simp
    qed
    have a: "acc \<subseteq> classes" using c(2) by (auto split: if_splits)
    have "\<forall>e \<in> set (info # rest). \<forall>g found. zip_member e = Some g \<and> nested (shown e) g = Inr found
            \<longrightarrow> found \<subseteq> classes"
      using c(3) zm by auto
    with r a show ?thesis by blast
  qed
qed

lemma sound_SucD:
  assumes "sound (Suc n) f"
  obtains infolist where "zip_infolist f = Inr infolist"
    "\<forall>e \<in> set infolist. readable e"
    "\<forall>e \<in> set infolist. \<forall>g. zip_member e = Some g \<longrightarrow> sound n g"
proof -
  from assms obtain infolist where i: "zip_infolist f = Inr infolist"
    by (cases "zip_infolist f") simp_all
  with assms have a: "\<forall>e \<in> set infolist. readable e
             \<and> (case zip_member e of None \<Rightarrow> True | Some g \<Rightarrow> sound n g)" by simp
  then have "\<forall>e \<in> set infolist. readable e" by blast
  moreover have "\<forall>e \<in> set infolist. \<forall>g. zip_member e = Some g \<longrightarrow> sound n g"
    using a by (auto split: option.splits)
  ultimately show ?thesis using i that by blast
qed

lemma sound_returns:
  "sound n f \<Longrightarrow> n = 11 - depth \<Longrightarrow> \<exists>classes. get_embedded_classes apkfile f depth = Inr classes"
proof (induction n arbitrary: f depth apkfile)
  case 0
  then have "depth > 10" by simp
  then show ?case by (simp add: get_embedded_classes_deep)
next
  case (Suc n)
  then have d: "depth \<le> 10" and n: "n = 11 - Suc depth" by simp_all
  from Suc.prems(1) obtain infolist where i: "zip_infolist f = Inr infolist"
    and rd: "\<forall>e \<in> set infolist. readable e"
    and sd: "\<forall>e \<in> set infolist. \<forall>g. zip_member e = Some g \<longrightarrow> sound n g"
    by (rule sound_SucD)
  let ?nested = "\<lambda>name fp. get_embedded_classes name fp (Suc depth)"
  have "\<forall>e \<in> set infolist. \<forall>g. zip_member e = Some g \<longrightarrow> (\<exists>found. ?nested (shown e) g = Inr found)"
    using sd Suc.IH [OF _ n] by blast
  from scan_entries_readable [OF rd this subset_refl, of "{}"] obtain classes where
    "scan_entries ?nested infolist infolist {} = Inr classes" by blast
  then show ?case using get_embedded_classes_open [OF d i, of apkfile] by simp
qed

lemma chain_ConsD:
  assumes "chain (e # es) f"
  obtains infolist g where "zip_infolist f = Inr infolist" "e \<in> set infolist"
    "zip_member e = Some g" "chain es g"
proof -
  from assms obtain infolist where i: "zip_infolist f = Inr infolist"
    by (cases "zip_infolist f") simp_all
  with assms have e: "e \<in> set infolist"
    and c: "case zip_member e of None \<Rightarrow> False | Some g \<Rightarrow> chain es g" by simp_all
  from c obtain g where "zip_member e = Some g" "chain es g"
    by (cases "zip_member e") simp_all
  with i e that show ?thesis by blast
qed

lemma sound_members_return:
  assumes "\<forall>e \<in> set infolist. \<forall>g. zip_member e = Some g \<longrightarrow> sound (10 - depth) g"
    and "depth \<le> 10"
  shows "\<forall>e \<in> set infolist. \<forall>g. zip_member e = Some g
           \<longrightarrow> (\<exists>found. get_embedded_classes (shown e) g (Suc depth) = Inr found)"
proof (intro ballI allI impI)
  fix e g assume "e \<in> set infolist" "zip_member e = Some g"
  with assms(1) have "sound (10 - depth) g" by blast
  moreover have "10 - depth = 11 - Suc depth" by simp
  ultimately show "\<exists>found. get_embedded_classes (shown e) g (Suc depth) = Inr found"
    by (rule sound_returns)
qed


lemma sound_scan:
  assumes s: "sound (11 - depth) f" and d: "depth \<le> 10" and i: "zip_infolist f = Inr infolist"
  shows "\<exists>classes. get_embedded_classes apkfile f depth = Inr classes
     \<and> (\<forall>e \<in> set infolist. \<forall>g found.
           zip_member e = Some g \<and> get_embedded_classes (shown e) g (Suc depth) = Inr found
           \<longrightarrow> found \<subseteq> classes)"
proof -
  have eq: "11 - depth = Suc (10 - depth)" using d by simp
  have s': "sound (Suc (10 - depth)) f" using s unfolding eq .
  from s' obtain infolist' where i': "zip_infolist f = Inr infolist'"
    and rd': "\<forall>e \<in> set infolist'. readable e"
    and sd': "\<forall>e \<in> set infolist'. \<forall>g. zip_member e = Some g \<longrightarrow> sound (10 - depth) g"
    by (rule sound_SucD)
  from i i' have same: "infolist' = infolist" by simp
  note rd = rd' [unfolded same] and sd = sd' [unfolded same]
  let ?nested = "\<lambda>name fp. get_embedded_classes name fp (Suc depth)"
  note ret = sound_members_return [OF sd d]
  from scan_entries_readable [of infolist ?nested infolist "{}", OF rd ret subset_refl]
  obtain classes where
    sc: "scan_entries ?nested infolist infolist {} = Inr classes"
    and all: "\<forall>e \<in> set infolist. \<forall>g found. zip_member e = Some g \<and> ?nested (shown e) g = Inr found
               \<longrightarrow> found \<subseteq> classes"
    by (elim exE conjE)
  have res: "get_embedded_classes apkfile f depth = Inr classes"
    unfolding get_embedded_classes_open [OF d i] sc by simp
  show ?thesis
    by (rule exI [of _ classes]) (rule conjI [OF res all])
qed


lemma chain_sentinel:
  "chain es f \<Longrightarrow> sound (11 - depth) f \<Longrightarrow> depth \<le> 10 \<Longrightarrow> depth + length es > 10
   \<Longrightarrow> \<exists>classes. get_embedded_classes apkfile f depth = Inr classes
         \<and> max_depth_msg (shown (es ! (10 - depth))) \<in> classes"
proof (induction es arbitrary: f depth apkfile)
  case Nil
  then show ?case by simp
next
  case (Cons e es)
  from Cons.prems(1) obtain infolist g where i: "zip_infolist f = Inr infolist"
    and e: "e \<in> set infolist" and g: "zip_member e = Some g" and ch: "chain es g"
    by (rule chain_ConsD)
  from sound_scan [OF Cons.prems(2,3) i, of apkfile] obtain classes where
    res: "get_embedded_classes apkfile f depth = Inr classes"
    and all: "\<forall>e \<in> set infolist. \<forall>g found.
           zip_member e = Some g \<and> get_embedded_classes (shown e) g (Suc depth) = Inr found
           \<longrightarrow> found \<subseteq> classes"
    by (elim exE conjE)
  have sub: "found \<subseteq> classes"
    if "get_embedded_classes (shown e) g (Suc depth) = Inr found" for found
    using all [rule_format, OF e conjI [OF g that]] .
  have "max_depth_msg (shown ((e # es) ! (10 - depth))) \<in> classes"
  proof (cases "depth = 10")
    case True
    have "get_embedded_classes (shown e) g (Suc depth) = Inr {max_depth_msg (shown e)}"
      by (rule get_embedded_classes_deep) (simp add: True)
    from sub [OF this] show ?thesis by (simp add: True)
  next
    case False
    with Cons.prems(3) have d: "Suc depth \<le> 10" by simp
    have l: "Suc depth + length es > 10" using Cons.prems(4) by simp
    have eq: "11 - depth = Suc (11 - Suc depth)" using d by simp
    from Cons.prems(2) [unfolded eq] obtain infolist' where i': "zip_infolist f = Inr infolist'"
      and sd': "\<forall>e \<in> set infolist'. \<forall>g. zip_member e = Some g \<longrightarrow> sound (11 - Suc depth) g"
      by (rule sound_SucD)
    from i i' have same: "infolist' = infolist" by simp
    have sg: "sound (11 - Suc depth) g"
      using sd' [unfolded same, rule_format, OF e g] .
    from Cons.IH [OF ch sg d l, of "shown e"] obtain found where
      f: "get_embedded_classes (shown e) g (Suc depth) = Inr found"
        "max_depth_msg (shown (es ! (10 - Suc depth))) \<in> found"
      by (elim exE conjE)
    have nth: "(e # es) ! (10 - depth) = es ! (10 - Suc depth)"
      using d by (simp add: nth_Cons')
    from sub [OF f(1)] f(2) show ?thesis unfolding nth by (rule subsetD)
  qed
  with res show ?case by (intro exI conjI)
qed

lemma is_zipfile_wrap [simp]: "is_zipfile (wrap f) = Inr True"
  by (simp add: wrap_def)

lemma is_zipfile_wrapped: "is_zipfile f = Inr True \<Longrightarrow> is_zipfile (wrapped n f) = Inr True"
  by (cases n) simp_all

lemma zip_member_inner_entry:
  "is_zipfile f = Inr True \<Longrightarrow> zip_member (inner_entry f) = Some f"
  by (simp add: zip_member_def inner_entry_def content_def)

lemma chain_wrapped:
  "is_zipfile f = Inr True \<Longrightarrow> chain (wrapped_chain n f) (wrapped n f)"
proof (induction n)
  case 0
  show ?case by simp
next
  case (Suc n)
  then show ?case
    by (simp add: wrap_def zip_member_inner_entry is_zipfile_wrapped)
qed

lemma length_wrapped_chain [simp]: "length (wrapped_chain n f) = n"
  by (induction n) simp_all

lemma inner_zip_extension: "searches archive_regex ''inner.zip''"
  by code_simp

lemma except_BadZipFile_not_BadZipFile:
  "\<not> (\<exists>e. except_BadZipFile apkfile r = Inl e \<and> is_BadZipFile e)"
  by (cases r) (auto simp: except_BadZipFile_def is_BadZipFile_def split: exn.splits)

lemma get_embedded_classes_not_BadZipFile:
  "get_embedded_classes apkfile f depth = Inl e \<Longrightarrow> \<not> is_BadZipFile e"
  using except_BadZipFile_not_BadZipFile
  by (subst (asm) get_embedded_classes.simps) (auto split: if_splits)

lemma get_embedded_classes_wrap:
  assumes "depth \<le> 10" "is_zipfile g = Inr True"
  shows "get_embedded_classes apkfile (wrap g) depth
         = get_embedded_classes ''<inner.zip>'' g (Suc depth)"
proof -
  have i: "zip_infolist (wrap g) = Inr [inner_entry g]" by (simp add: wrap_def)
  show ?thesis
  proof (cases "get_embedded_classes ''<inner.zip>'' g (Suc depth)")
    case (Inl e)
    from get_embedded_classes_not_BadZipFile [OF this] have "\<not> is_BadZipFile e" .
    then show ?thesis
      unfolding get_embedded_classes_open [OF assms(1) i]
      using assms(2) Inl
      by (simp add: inner_entry_def content_def shown_def info_filename_def)
  next
    case (Inr found)
    then show ?thesis
      unfolding get_embedded_classes_open [OF assms(1) i]
      using assms(2)
      by (simp add: inner_entry_def content_def shown_def info_filename_def inner_zip_extension)
  qed
qed

lemma get_embedded_classes_wrapped:
  "is_zipfile f = Inr True \<Longrightarrow> depth \<le> 10 \<Longrightarrow> depth + n > 10
   \<Longrightarrow> get_embedded_classes apkfile (wrapped n f) depth = Inr {max_depth_msg ''<inner.zip>''}"
proof (induction n arbitrary: depth apkfile)
  case 0
  then show ?case by simp
next
  case (Suc n)
  have z: "is_zipfile (wrapped n f) = Inr True" using Suc.prems(1) by (rule is_zipfile_wrapped)
  have step: "get_embedded_classes apkfile (wrapped (Suc n) f) depth
              = get_embedded_classes ''<inner.zip>'' (wrapped n f) (Suc depth)"
    using get_embedded_classes_wrap [OF Suc.prems(2) z] by simp
  show ?case
  proof (cases "Suc depth > 10")
    case True
    then show ?thesis using step by (simp add: get_embedded_classes_deep)
  next
    case False
    then have "Suc depth \<le> 10" "Suc depth + n > 10" using Suc.prems(3) by auto
    from Suc.IH [OF Suc.prems(1) this] step show ?thesis by simp
  qed
qed

lemma bad_memberD:
  "bad_member e \<Longrightarrow> \<exists>ex. content e = Inl (BadZipFile ex)"
  by (cases "content e") (auto simp: bad_member_def is_BadZipFile_def split: exn.splits)

lemma scan_entries_bad:
  assumes all: "\<forall>e \<in> set infolist. bad_member e \<or> readable e"
    and nested: "\<forall>e \<in> set infolist. \<forall>g. zip_member e = Some g
                  \<longrightarrow> (\<exists>found. nested (shown e) g = Inr found)"
  shows "set es \<subseteq> set infolist \<Longrightarrow> \<exists>e \<in> set es. bad_member e
    \<Longrightarrow> \<exists>ex. scan_entries nested infolist es acc = Inl (BadZipFile ex)
           \<and> (\<exists>e \<in> set infolist. content e = Inl (BadZipFile ex))"
proof (induction es arbitrary: acc)
  case Nil
  then show ?case by simp
next
  case (Cons info rest)
  from Cons.prems(1) have info: "info \<in> set infolist" and rest: "set rest \<subseteq> set infolist"
    by simp_all
  show ?case
  proof (cases "bad_member info")
    case True
    from bad_memberD [OF this] obtain ex where c: "content info = Inl (BadZipFile ex)" ..
    have "scan_entries nested infolist (info # rest) acc = Inl (BadZipFile ex)"
      by (simp add: c)
    moreover have "\<exists>e \<in> set infolist. content e = Inl (BadZipFile ex)"
      using info c by (rule bexI [rotated])
    ultimately show ?thesis by (intro exI conjI)
  next
    case False
    with Cons.prems(2) have br: "\<exists>e \<in> set rest. bad_member e" by simp
    note IH = Cons.IH [OF rest br]
    from all info have "bad_member info \<or> readable info" ..
    with False have "readable info" by simp
    then obtain fp z m out where fp: "content info = Inr fp" "is_zipfile fp = Inr z"
      "magic fp = Inr m" "dexdump_output fp = Inr out"
      by (rule readableD)
    show ?thesis
    proof (cases z)
      case True
      have zm: "zip_member info = Some fp" using fp(1,2) True by (simp add: zip_member_simps)
      from nested [rule_format, OF info zm] obtain found where
        found: "nested (shown info) fp = Inr found" ..
      have step: "scan_entries nested infolist (info # rest) acc
          = scan_entries nested infolist rest
              (acc \<union> found
               \<union> (if searches archive_regex (info_filename info) then {}
                  else {no_extension_msg (info_filename info)}))"
        using True by (simp add: fp(1,2) found)
      show ?thesis unfolding step by (rule IH)
    next
      case nz: False
      have "info_filename info \<in> set (map info_filename infolist)" using info by simp
      from open_by_name_member [OF this] obtain e' where
        e': "e' \<in> set infolist" "open_by_name infolist (info_filename info) = content e'"
        by (elim bexE conjE)
      show ?thesis
      proof (cases "bad_member e'")
        case True
        from bad_memberD [OF this] obtain ex where c: "content e' = Inl (BadZipFile ex)" ..
        have "scan_entries nested infolist (info # rest) acc = Inl (BadZipFile ex)"
          using nz by (simp add: fp(1,2) e'(2) c)
        moreover have "\<exists>e \<in> set infolist. content e = Inl (BadZipFile ex)"
          using e'(1) c by (rule bexI [rotated])
        ultimately show ?thesis by (intro exI conjI)
      next
        case False
        from all e'(1) have "bad_member e' \<or> readable e'" ..
        with False have "readable e'" by simp
        then obtain fp2 z2 m2 out2 where fp2: "content e' = Inr fp2" "magic fp2 = Inr m2"
          by (rule readableD)
        show ?thesis
        proof (cases "m2 = ''dex''")
          case True
          have step: "scan_entries nested infolist (info # rest) acc
            = scan_entries nested infolist rest
                (acc
                 \<union> (if searches class_regex (info_filename info) then {}
                    else {fake_name_msg (info_filename info)})
                 \<union> set (findall dexdump_class_regex out))"
            using nz True by (simp add: fp(1,2,4) e'(2) fp2)
          show ?thesis unfolding step by (rule IH)
        next
          case False
          have step: "scan_entries nested infolist (info # rest) acc
            = scan_entries nested infolist rest acc"
            using nz False by (simp add: fp(1,2,4) e'(2) fp2)
          show ?thesis unfolding step by (rule IH)
        qed
      qed
    qed
  qed
qed

lemma readable_inner_entry:
  "readable (inner_entry (wrap f))" "readable (inner_entry empty_zip)"
  by (simp_all add: readable_def inner_entry_def content_def wrap_def empty_zip_def)

lemma is_zipfile_empty_zip: "is_zipfile empty_zip = Inr True"
  by (simp add: empty_zip_def)

lemma sound_wrapped: "sound k (wrapped n empty_zip)"
proof (induction k arbitrary: n)
  case 0
  show ?case by simp
next
  case (Suc k)
  show ?case
  proof (cases n)
    case 0
    then show ?thesis by (simp add: empty_zip_def)
  next
    case (Suc m)
    have z: "is_zipfile (wrapped m empty_zip) = Inr True"
      by (rule is_zipfile_wrapped [OF is_zipfile_empty_zip])
    have r: "readable (inner_entry (wrapped m empty_zip))"
      by (cases m) (simp_all add: readable_inner_entry)
    show ?thesis
      unfolding Suc
      by (simp add: wrap_def r zip_member_inner_entry [OF z] Suc.IH)
  qed
qed

lemma shown_wrapped_chain:
  "i < n \<Longrightarrow> shown (wrapped_chain n f ! i) = ''<inner.zip>''"
proof (induction n arbitrary: i)
  case 0
  then show ?case by simp
next
  case (Suc n)
  then show ?case
    by (cases i) (simp_all add: inner_entry_def shown_def)
qed

lemma deep_broken_result:
  "get_embedded_classes ''app.apk'' deep_broken 0
   = Inr {problem_msg ''app.apk'' ''Bad magic number for file header''}"
proof -
  let ?bad = "(''res.bin'', ''<res.bin>'', Inl (BadZipFile ''Bad magic number for file header''))"
  have i: "zip_infolist deep_broken = Inr [inner_entry (wrapped 10 empty_zip), ?bad]"
    by (simp add: deep_broken_def)
  have z: "is_zipfile (wrapped 10 empty_zip) = Inr True"
    by (rule is_zipfile_wrapped [OF is_zipfile_empty_zip])
  have n: "get_embedded_classes ''<inner.zip>'' (wrapped 10 empty_zip) (Suc 0)
           = Inr {max_depth_msg ''<inner.zip>''}"
    by (rule get_embedded_classes_wrapped [OF is_zipfile_empty_zip]) simp_all
  have "scan_entries (\<lambda>name fp. get_embedded_classes name fp (Suc 0))
          [inner_entry (wrapped 10 empty_zip), ?bad] [inner_entry (wrapped 10 empty_zip), ?bad] {}
        = Inl (BadZipFile ''Bad magic number for file header'')"
    by (simp add: inner_entry_def content_def shown_def info_filename_def z n)
  then show ?thesis
    unfolding get_embedded_classes_open [OF le0 i] by simp
qed

lemma chain_deep_broken: "chain (wrapped_chain 11 empty_zip) deep_broken"
proof -
  have e: "wrapped_chain 11 empty_zip
           = inner_entry (wrapped 10 empty_zip) # wrapped_chain 10 empty_zip"
    by (simp add: eval_nat_numeral)
  have z: "is_zipfile (wrapped 10 empty_zip) = Inr True"
    by (rule is_zipfile_wrapped [OF is_zipfile_empty_zip])
  show ?thesis
    unfolding e
    by (simp add: deep_broken_def zip_member_inner_entry [OF z] chain_wrapped [OF is_zipfile_empty_zip])
qed

text \<open>
  Claim C4, as stated: for every container nested deeper than the bound, the result set
  contains the sentinel \<^verbatim>\<open>Max recursion depth in ZIP file reached\<close> for that branch. It does
  not for every container. \<open>deep_broken\<close> holds a member in which eleven ZIP files are
  nested, each in the one before, and behind it a member for which \<^verbatim>\<open>open\<close> raises
  \<^verbatim>\<open>BadZipFile\<close>. The recursive call on the first member returns the sentinel, but the
  exception of the second leaves the loop, the \<^verbatim>\<open>except\<close> clause returns the one message
  \<^verbatim>\<open>Problem with ZIP file\<close>, and the set \<^verbatim>\<open>classes\<close> with the sentinel is dropped.
\<close>

theorem sentinel_lost_beside_bad_member:
  "chain (wrapped_chain 11 empty_zip) deep_broken
   \<and> length (wrapped_chain 11 empty_zip) = 11
   \<and> get_embedded_classes ''<inner.zip>'' (wrapped 10 empty_zip) 1
       = Inr {''Max recursion depth in ZIP file reached: <inner.zip>''}
   \<and> get_embedded_classes ''app.apk'' deep_broken 0
       = Inr {''Problem with ZIP file: app.apk, error Bad magic number for file header''}"
proof (intro conjI)
  show "chain (wrapped_chain 11 empty_zip) deep_broken" by (rule chain_deep_broken)
  show "length (wrapped_chain 11 empty_zip) = 11" by simp
  have "get_embedded_classes ''<inner.zip>'' (wrapped 10 empty_zip) 1
        = Inr {max_depth_msg ''<inner.zip>''}"
    by (rule get_embedded_classes_wrapped [OF is_zipfile_empty_zip]) simp_all
  then show "get_embedded_classes ''<inner.zip>'' (wrapped 10 empty_zip) 1
       = Inr {''Max recursion depth in ZIP file reached: <inner.zip>''}"
    by (simp add: max_depth_msg_def)
  show "get_embedded_classes ''app.apk'' deep_broken 0
       = Inr {''Problem with ZIP file: app.apk, error Bad magic number for file header''}"
    unfolding deep_broken_result by (simp add: problem_msg_def)
qed

text \<open>
  Claim C4, amended: the recursion of \<^verbatim>\<open>get_embedded_classes\<close> is bounded by the depth 10.
  \<^item> The function is total on files nested to any depth, without end even: its recursion
    is justified by the measure \<open>11 - depth\<close> alone.
  \<^item> Called at a depth above 10 it returns the set holding the sentinel
    \<^verbatim>\<open>Max recursion depth in ZIP file reached\<close> for that file and nothing else, without
    opening the file.
  \<^item> When \<open>es\<close> is a branch of ZIP members nested in \<open>f\<close>, each in the one before, that
    reaches below depth 10, and nothing raises in \<open>f\<close> and its members down to depth 10
    (\<open>sound\<close>), the result for \<open>f\<close> contains the sentinel that names the member of the
    branch at depth 11. (An exception in an archive on the way replaces the result of
    that archive by the message of claim C8, or leaves the function.)
  \<^item> For a ZIP file wrapped in more than 10 containers, however many, the result at depth
    0 is the sentinel alone.
\<close>

theorem get_embedded_classes_bounded:
  "(depth > 10 \<longrightarrow> get_embedded_classes apkfile f depth = Inr {max_depth_msg apkfile})
   \<and> (depth \<le> 10 \<and> depth + length es > 10 \<and> chain es f \<and> sound (11 - depth) f \<longrightarrow>
        (\<exists>classes. get_embedded_classes apkfile f depth = Inr classes
           \<and> max_depth_msg (shown (es ! (10 - depth))) \<in> classes))
   \<and> (is_zipfile f = Inr True \<and> n > 10 \<longrightarrow>
        get_embedded_classes apkfile (wrapped n f) 0 = Inr {max_depth_msg ''<inner.zip>''})"
proof (intro conjI impI)
  assume "depth > 10"
  then show "get_embedded_classes apkfile f depth = Inr {max_depth_msg apkfile}"
    by (rule get_embedded_classes_deep)
next
  assume h: "depth \<le> 10 \<and> depth + length es > 10 \<and> chain es f \<and> sound (11 - depth) f"
  show "\<exists>classes. get_embedded_classes apkfile f depth = Inr classes
           \<and> max_depth_msg (shown (es ! (10 - depth))) \<in> classes"
    by (rule chain_sentinel [OF h [THEN conjunct2, THEN conjunct2, THEN conjunct1]
          h [THEN conjunct2, THEN conjunct2, THEN conjunct2] h [THEN conjunct1]
          h [THEN conjunct2, THEN conjunct1]])
next
  assume h: "is_zipfile f = Inr True \<and> n > 10"
  have "0 + n > 10" using h [THEN conjunct2] by simp
  from get_embedded_classes_wrapped [OF h [THEN conjunct1] le0 this]
  show "get_embedded_classes apkfile (wrapped n f) 0 = Inr {max_depth_msg ''<inner.zip>''}" .
qed

text \<open>
  At depth 11 a file that cannot be read gives the sentinel; eleven containers around an
  empty archive give, at depth 0, the sentinel for the innermost.
\<close>

theorem get_embedded_classes_bounded_witness:
  "(11::nat) > 10
   \<and> get_embedded_classes ''app.apk'' unreadable_file 11
       = Inr {''Max recursion depth in ZIP file reached: app.apk''}
   \<and> (0::nat) \<le> 10 \<and> 0 + length (wrapped_chain 11 empty_zip) > 10
   \<and> chain (wrapped_chain 11 empty_zip) (wrapped 11 empty_zip)
   \<and> sound (11 - 0) (wrapped 11 empty_zip)
   \<and> (\<exists>classes. get_embedded_classes ''app.apk'' (wrapped 11 empty_zip) 0 = Inr classes
         \<and> ''Max recursion depth in ZIP file reached: <inner.zip>'' \<in> classes)
   \<and> is_zipfile empty_zip = Inr True
   \<and> get_embedded_classes ''app.apk'' (wrapped 11 empty_zip) 0
       = Inr {''Max recursion depth in ZIP file reached: <inner.zip>''}"
proof -
  note h = get_embedded_classes_bounded
  have c1: "get_embedded_classes ''app.apk'' unreadable_file 11
       = Inr {''Max recursion depth in ZIP file reached: app.apk''}"
    using h [of 11 "''app.apk''" unreadable_file, THEN conjunct1] by (simp add: max_depth_msg_def)
  have l: "0 + length (wrapped_chain 11 empty_zip) > 10" by simp
  have ch: "chain (wrapped_chain 11 empty_zip) (wrapped 11 empty_zip)"
    by (rule chain_wrapped [OF is_zipfile_empty_zip])
  have so: "sound (11 - 0) (wrapped 11 empty_zip)" by (rule sound_wrapped)
  have hyp: "(0::nat) \<le> 10 \<and> 0 + length (wrapped_chain 11 empty_zip) > 10
      \<and> chain (wrapped_chain 11 empty_zip) (wrapped 11 empty_zip)
      \<and> sound (11 - 0) (wrapped 11 empty_zip)"
    by (intro conjI le0 l ch so)
  from h [of 0 "''app.apk''" "wrapped 11 empty_zip" "wrapped_chain 11 empty_zip",
      THEN conjunct2, THEN conjunct1, THEN mp, OF hyp]
  obtain classes where r: "get_embedded_classes ''app.apk'' (wrapped 11 empty_zip) 0 = Inr classes"
    and m: "max_depth_msg (shown (wrapped_chain 11 empty_zip ! (10 - 0))) \<in> classes"
    by (elim exE conjE)
  have "shown (wrapped_chain 11 empty_zip ! (10 - 0)) = ''<inner.zip>''"
    by (simp add: shown_wrapped_chain)
  with m have m': "''Max recursion depth in ZIP file reached: <inner.zip>'' \<in> classes"
    by (simp add: max_depth_msg_def)
  have c2: "\<exists>classes. get_embedded_classes ''app.apk'' (wrapped 11 empty_zip) 0 = Inr classes
         \<and> ''Max recursion depth in ZIP file reached: <inner.zip>'' \<in> classes"
    by (rule exI [of _ classes]) (rule conjI [OF r m'])
  have hyp3: "is_zipfile empty_zip = Inr True \<and> (11::nat) > 10"
    by (simp add: is_zipfile_empty_zip)
  have c3: "get_embedded_classes ''app.apk'' (wrapped 11 empty_zip) 0
       = Inr {''Max recursion depth in ZIP file reached: <inner.zip>''}"
    using h [where f = empty_zip and n = 11 and apkfile = "''app.apk''",
        THEN conjunct2, THEN conjunct2, THEN mp, OF hyp3]
    by (simp add: max_depth_msg_def)
  show ?thesis
    by (intro conjI c1 le0 l ch so c2 is_zipfile_empty_zip c3) simp
qed

text \<open>
  Claim C8, as stated: for every corrupt or unreadable container the result is a set of
  one anomaly string and no exception reaches the caller. It is not: the \<^verbatim>\<open>except\<close> clause
  names \<^verbatim>\<open>zipfile.BadZipFile\<close> alone. An archive with a member whose compressed data is
  corrupt (\<^verbatim>\<open>zlib.error\<close> from \<^verbatim>\<open>is_zipfile\<close>), a path that cannot be read (\<^verbatim>\<open>PermissionError\<close>
  from \<^verbatim>\<open>ZipFile\<close>) and an archive with an encrypted member (\<^verbatim>\<open>RuntimeError\<close> from \<^verbatim>\<open>open\<close>)
  each make \<^verbatim>\<open>get_embedded_classes\<close> raise.
\<close>

theorem exceptions_other_than_BadZipFile_propagate:
  "get_embedded_classes ''app.apk'' corrupt_data_zip 0 = Inl ZlibError
   \<and> get_embedded_classes ''app.apk'' unreadable_file 0 = Inl PermissionError
   \<and> get_embedded_classes ''app.apk'' encrypted_zip 0 = Inl RuntimeError"
proof (intro conjI)
  have i: "zip_infolist corrupt_data_zip = Inr [(''lib.bin'', ''<lib.bin>'', Inr corrupt_data_file)]"
    by (simp add: corrupt_data_zip_def)
  show "get_embedded_classes ''app.apk'' corrupt_data_zip 0 = Inl ZlibError"
    unfolding get_embedded_classes_open [OF le0 i]
    by (simp add: content_def corrupt_data_file_def is_BadZipFile_def)
  have u: "zip_infolist unreadable_file = Inl PermissionError"
    by (simp add: unreadable_file_def)
  show "get_embedded_classes ''app.apk'' unreadable_file 0 = Inl PermissionError"
    unfolding get_embedded_classes_raised [OF le0 u]
    by (simp add: is_BadZipFile_def)
  have e: "zip_infolist encrypted_zip = Inr [(''secret.bin'', ''<secret.bin>'', Inl RuntimeError)]"
    by (simp add: encrypted_zip_def)
  show "get_embedded_classes ''app.apk'' encrypted_zip 0 = Inl RuntimeError"
    unfolding get_embedded_classes_open [OF le0 e]
    by (simp add: content_def is_BadZipFile_def)
qed

lemma sound_member_nested:
  assumes "\<forall>e \<in> set infolist. bad_member e \<or> sound_member (10 - depth) e" "depth \<le> 10"
  shows "\<forall>e \<in> set infolist. bad_member e \<or> readable e"
    and "\<forall>e \<in> set infolist. \<forall>g. zip_member e = Some g
           \<longrightarrow> (\<exists>found. get_embedded_classes (shown e) g (Suc depth) = Inr found)"
proof -
  show "\<forall>e \<in> set infolist. bad_member e \<or> readable e"
    using assms(1) by (auto simp: sound_member_def)
  show "\<forall>e \<in> set infolist. \<forall>g. zip_member e = Some g
           \<longrightarrow> (\<exists>found. get_embedded_classes (shown e) g (Suc depth) = Inr found)"
  proof (intro ballI allI impI)
    fix e g assume e: "e \<in> set infolist" and g: "zip_member e = Some g"
    from zip_member_SomeD [OF g] have "\<not> bad_member e" by (simp add: bad_member_def)
    with assms(1) e have "sound_member (10 - depth) e" by blast
    with g have "sound (10 - depth) g" by (simp add: sound_member_def)
    moreover have "10 - depth = 11 - Suc depth" by simp
    ultimately show "\<exists>found. get_embedded_classes (shown e) g (Suc depth) = Inr found"
      by (rule sound_returns)
  qed
qed

text \<open>
  Claim C8, amended: a container for which \<^verbatim>\<open>BadZipFile\<close> is raised yields one anomaly
  string, and \<^verbatim>\<open>BadZipFile\<close> never reaches the caller; every other exception does. At a
  depth within the bound,
  \<^item> when \<^verbatim>\<open>zipfile.ZipFile\<close> raises \<^verbatim>\<open>BadZipFile\<close> for the file (it is not a ZIP file, or its
    directory is broken), the result is the set of the one message \<^verbatim>\<open>Problem with ZIP file\<close>
    naming the container and the error;
  \<^item> when opening a member raises \<^verbatim>\<open>BadZipFile\<close>, and nothing else raises in the other
    members, the result is the set of that one message with the error of such a member
    (what was found in the members before is dropped);
  \<^item> when \<^verbatim>\<open>zipfile.ZipFile\<close> raises another exception, \<^verbatim>\<open>get_embedded_classes\<close> raises it;
  and at any depth, an exception that \<^verbatim>\<open>get_embedded_classes\<close> raises is not \<^verbatim>\<open>BadZipFile\<close>.
\<close>

theorem BadZipFile_single_anomaly:
  "(depth \<le> 10 \<and> zip_infolist f = Inl (BadZipFile ex) \<longrightarrow>
      get_embedded_classes apkfile f depth = Inr {problem_msg apkfile ex})
   \<and> (depth \<le> 10 \<and> zip_infolist f = Inr infolist
        \<and> (\<forall>e \<in> set infolist. bad_member e \<or> sound_member (10 - depth) e)
        \<and> (\<exists>e \<in> set infolist. bad_member e) \<longrightarrow>
      (\<exists>ex'. get_embedded_classes apkfile f depth = Inr {problem_msg apkfile ex'}
         \<and> (\<exists>e \<in> set infolist. content e = Inl (BadZipFile ex'))))
   \<and> (depth \<le> 10 \<and> zip_infolist f = Inl e \<and> \<not> is_BadZipFile e \<longrightarrow>
      get_embedded_classes apkfile f depth = Inl e)
   \<and> (get_embedded_classes apkfile f depth = Inl e' \<longrightarrow> \<not> is_BadZipFile e')"
proof (intro conjI impI)
  assume h: "depth \<le> 10 \<and> zip_infolist f = Inl (BadZipFile ex)"
  show "get_embedded_classes apkfile f depth = Inr {problem_msg apkfile ex}"
    unfolding get_embedded_classes_raised [OF h [THEN conjunct1] h [THEN conjunct2]] by simp
next
  assume h: "depth \<le> 10 \<and> zip_infolist f = Inr infolist
        \<and> (\<forall>e \<in> set infolist. bad_member e \<or> sound_member (10 - depth) e)
        \<and> (\<exists>e \<in> set infolist. bad_member e)"
  note d = h [THEN conjunct1] and i = h [THEN conjunct2, THEN conjunct1]
    and a = h [THEN conjunct2, THEN conjunct2, THEN conjunct1]
    and b = h [THEN conjunct2, THEN conjunct2, THEN conjunct2]
  let ?nested = "\<lambda>name fp. get_embedded_classes name fp (Suc depth)"
  from scan_entries_bad [of infolist ?nested infolist "{}",
      OF sound_member_nested(1) [OF a d] sound_member_nested(2) [OF a d] subset_refl b]
  obtain ex' where sc: "scan_entries ?nested infolist infolist {} = Inl (BadZipFile ex')"
    and mem: "\<exists>e \<in> set infolist. content e = Inl (BadZipFile ex')"
    by (elim exE conjE)
  have "get_embedded_classes apkfile f depth = Inr {problem_msg apkfile ex'}"
    unfolding get_embedded_classes_open [OF d i] sc by simp
  then show "\<exists>ex'. get_embedded_classes apkfile f depth = Inr {problem_msg apkfile ex'}
         \<and> (\<exists>e \<in> set infolist. content e = Inl (BadZipFile ex'))"
    using mem by (intro exI conjI)
next
  assume h: "depth \<le> 10 \<and> zip_infolist f = Inl e \<and> \<not> is_BadZipFile e"
  show "get_embedded_classes apkfile f depth = Inl e"
    unfolding get_embedded_classes_raised [OF h [THEN conjunct1] h [THEN conjunct2, THEN conjunct1]]
    using h [THEN conjunct2, THEN conjunct2] by simp
next
  assume "get_embedded_classes apkfile f depth = Inl e'"
  then show "\<not> is_BadZipFile e'" by (rule get_embedded_classes_not_BadZipFile)
qed


text \<open>
  A file that is not a ZIP file, a ZIP file with a broken directory and an archive with
  a DEX file before a broken member give one message each; a path that cannot be read
  raises \<^verbatim>\<open>PermissionError\<close>.
\<close>

theorem BadZipFile_single_anomaly_witness:
  "zip_infolist plain_file = Inl (BadZipFile ''File is not a zip file'')
   \<and> get_embedded_classes ''app.apk'' plain_file 0
       = Inr {''Problem with ZIP file: app.apk, error File is not a zip file''}
   \<and> zip_infolist rejected_zip = Inl (BadZipFile ''Bad magic number for central directory'')
   \<and> get_embedded_classes ''app.apk'' rejected_zip 0
       = Inr {''Problem with ZIP file: app.apk, error Bad magic number for central directory''}
   \<and> sound_member 10 (''classes.dex'', ''<classes.dex>'', Inr dex_file)
   \<and> bad_member (''res.bin'', ''<res.bin>'', Inl (BadZipFile ''Bad magic number for file header''))
   \<and> get_embedded_classes ''app.apk'' broken_zip 0
       = Inr {''Problem with ZIP file: app.apk, error Bad magic number for file header''}
   \<and> zip_infolist unreadable_file = Inl PermissionError
   \<and> is_BadZipFile PermissionError = False
   \<and> get_embedded_classes ''app.apk'' unreadable_file 0 = Inl PermissionError"
proof -
  let ?dex = "(''classes.dex'', ''<classes.dex>'', Inr dex_file)"
  let ?bad = "(''res.bin'', ''<res.bin>'', Inl (BadZipFile ''Bad magic number for file header''))"
  let ?members = "[?dex, ?bad]"
  note h = BadZipFile_single_anomaly [where apkfile = "''app.apk''" and depth = 0]
  have zp: "zip_infolist plain_file = Inl (BadZipFile ''File is not a zip file'')"
    by (simp add: plain_file_def not_a_zip_def)
  have p: "(0::nat) \<le> 10 \<and> zip_infolist plain_file = Inl (BadZipFile ''File is not a zip file'')"
    by (intro conjI le0 zp)
  have c1: "get_embedded_classes ''app.apk'' plain_file 0
       = Inr {''Problem with ZIP file: app.apk, error File is not a zip file''}"
    using h [where f = plain_file, THEN conjunct1, THEN mp, OF p]
    by (simp add: problem_msg_def)
  have zr: "zip_infolist rejected_zip = Inl (BadZipFile ''Bad magic number for central directory'')"
    by (simp add: rejected_zip_def)
  have r: "(0::nat) \<le> 10
      \<and> zip_infolist rejected_zip = Inl (BadZipFile ''Bad magic number for central directory'')"
    by (intro conjI le0 zr)
  have c2: "get_embedded_classes ''app.apk'' rejected_zip 0
       = Inr {''Problem with ZIP file: app.apk, error Bad magic number for central directory''}"
    using h [where f = rejected_zip, THEN conjunct1, THEN mp, OF r]
    by (simp add: problem_msg_def)
  have sm: "sound_member 10 ?dex"
    by (simp add: sound_member_def readable_def zip_member_def content_def dex_file_def)
  have bm: "bad_member ?bad"
    by (simp add: bad_member_def content_def is_BadZipFile_def)
  have zb: "zip_infolist broken_zip = Inr ?members"
    by (simp add: broken_zip_def)
  have al: "\<forall>e \<in> set ?members. bad_member e \<or> sound_member (10 - 0) e"
    using sm bm by simp
  have ex: "\<exists>e \<in> set ?members. bad_member e"
    using bm by simp
  have b: "(0::nat) \<le> 10 \<and> zip_infolist broken_zip = Inr ?members
        \<and> (\<forall>e \<in> set ?members. bad_member e \<or> sound_member (10 - 0) e)
        \<and> (\<exists>e \<in> set ?members. bad_member e)"
    by (intro conjI le0 zb al ex)
  from h [where f = broken_zip and infolist = ?members,
      THEN conjunct2, THEN conjunct1, THEN mp, OF b]
  obtain ex' where e: "get_embedded_classes ''app.apk'' broken_zip 0 = Inr {problem_msg ''app.apk'' ex'}"
    and m: "\<exists>e \<in> set ?members. content e = Inl (BadZipFile ex')"
    by (elim exE conjE)
  from m have "ex' = ''Bad magic number for file header''"
    by (simp add: content_def)
  with e have c3: "get_embedded_classes ''app.apk'' broken_zip 0
       = Inr {''Problem with ZIP file: app.apk, error Bad magic number for file header''}"
    by (simp add: problem_msg_def)
  have zu: "zip_infolist unreadable_file = Inl PermissionError"
    by (simp add: unreadable_file_def)
  have nb: "\<not> is_BadZipFile PermissionError" by (simp add: is_BadZipFile_def)
  have u: "(0::nat) \<le> 10 \<and> zip_infolist unreadable_file = Inl PermissionError
      \<and> \<not> is_BadZipFile PermissionError"
    by (intro conjI le0 zu nb)
  have c4: "get_embedded_classes ''app.apk'' unreadable_file 0 = Inl PermissionError"
    using h [where f = unreadable_file and e = PermissionError,
        THEN conjunct2, THEN conjunct2, THEN conjunct1, THEN mp, OF u] .
  have c5: "is_BadZipFile PermissionError = False"
    using h [where f = unreadable_file and e' = PermissionError,
        THEN conjunct2, THEN conjunct2, THEN conjunct2, THEN mp, OF c4] by simp
  show ?thesis
    by (intro conjI zp c1 zr c2 sm bm c3 zu c5 c4)
qed

section \<open>Properties of the binary scanner\<close>

lemma tracker_args_offset:
  "tracker_args (length pre + i) ts (pre @ cs) = tracker_args i ts cs"
proof (induction ts arbitrary: i)
  case Nil
  show ?case by simp
next
  case (Cons t ts)
  have "tracker_args (Suc (length pre + i)) ts (pre @ cs) = tracker_args (Suc i) ts cs"
    using Cons.IH [of "Suc i"] by simp
  then show ?case by (simp add: nth_append split: sum.splits)
qed

lemma tracker_args_skip_short:
  assumes "length (code_signature t) \<le> 3" "length ts1 = length cs1"
  shows "tracker_args (length pre) (ts1 @ t # ts2) (pre @ cs1 @ m # cs2)
         = tracker_args (length pre) (ts1 @ ts2) (pre @ cs1 @ cs2)"
  using assms(2)
proof (induction ts1 arbitrary: cs1 pre)
  case Nil
  have l: "tracker_args (Suc (length pre)) ts2 (pre @ m # cs2) = tracker_args 0 ts2 cs2"
    using tracker_args_offset [of "pre @ [m]" 0 ts2 cs2] by simp
  have r: "tracker_args (length pre) ts2 (pre @ cs2) = tracker_args 0 ts2 cs2"
    using tracker_args_offset [of pre 0 ts2 cs2] by simp
  from Nil assms(1) l r show ?case by simp
next
  case (Cons x ts1)
  then obtain c cs1' where cs1: "cs1 = c # cs1'" and len: "length ts1 = length cs1'"
    by (cases cs1) auto
  have IH: "tracker_args (Suc (length pre)) (ts1 @ t # ts2) (pre @ c # cs1' @ m # cs2)
            = tracker_args (Suc (length pre)) (ts1 @ ts2) (pre @ c # cs1' @ cs2)"
    using Cons.IH [OF len, of "pre @ [c]"] by simp
  show ?case
    unfolding cs1 using IH by (simp add: nth_append split: sum.splits)
qed

lemma tracker_args_all_short:
  "\<forall>t \<in> set ts. length (code_signature t) \<le> 3 \<Longrightarrow> tracker_args i ts cs = Inr []"
  by (induction ts arbitrary: i) simp_all

text \<open>
  Claim C10: in \<^verbatim>\<open>scan_binary\<close> with a tracker list, a tracker whose \<^verbatim>\<open>code_signature\<close>
  has length 3 or less is skipped. Putting such a tracker anywhere into the list, with
  any compiled expression \<open>m\<close> at its place (one that finds every class name, too),
  changes neither the result nor whether the scan raises, whatever the container and
  the class signatures; and a list of such trackers only gives the result of the scan
  without a tracker list.
\<close>

theorem scan_binary_skips_short_signatures:
  "(length (code_signature t) \<le> 3 \<and> length ts1 = length cs1 \<longrightarrow>
      scan_binary code_signatures apkfile f (Some (ts1 @ t # ts2, cs1 @ m # cs2))
      = scan_binary code_signatures apkfile f (Some (ts1 @ ts2, cs1 @ cs2)))
   \<and> ((\<forall>t \<in> set ts. length (code_signature t) \<le> 3) \<longrightarrow>
      scan_binary code_signatures apkfile f (Some (ts, cs))
      = scan_binary code_signatures apkfile f None)"
proof (intro conjI impI)
  assume "length (code_signature t) \<le> 3 \<and> length ts1 = length cs1"
  then have "tracker_args 0 (ts1 @ t # ts2) (cs1 @ m # cs2) = tracker_args 0 (ts1 @ ts2) (cs1 @ cs2)"
    using tracker_args_skip_short [of t ts1 cs1 "[]" ts2 m cs2] by simp
  then show "scan_binary code_signatures apkfile f (Some (ts1 @ t # ts2, cs1 @ m # cs2))
      = scan_binary code_signatures apkfile f (Some (ts1 @ ts2, cs1 @ cs2))"
    by (cases "get_embedded_classes apkfile f 0") (simp_all add: scan_binary_def)
next
  assume "\<forall>t \<in> set ts. length (code_signature t) \<le> 3"
  then have "tracker_args 0 ts cs = Inr []" by (rule tracker_args_all_short)
  then show "scan_binary code_signatures apkfile f (Some (ts, cs))
      = scan_binary code_signatures apkfile f None"
    by (cases "get_embedded_classes apkfile f 0") (simp_all add: scan_binary_def)
qed

lemma classes_dex_name: "searches class_regex ''classes.dex''"
  by code_simp

lemma dexdump_classes:
  "findall dexdump_class_regex ''  Class descriptor  : Lcom/evil/Tracker;'' = [''com/evil/Tracker'']"
  by code_simp

lemma apk_with_dex_classes:
  "get_embedded_classes ''app.apk'' apk_with_dex 0 = Inr {''com/evil/Tracker''}"
proof -
  have i: "zip_infolist apk_with_dex = Inr [(''classes.dex'', ''<classes.dex>'', Inr dex_file)]"
    by (simp add: apk_with_dex_def)
  show ?thesis
    unfolding get_embedded_classes_open [OF le0 i]
    by (simp add: dex_file_def content_def shown_def info_filename_def
        classes_dex_name dexdump_classes)
qed

lemma evil_found: "searches (Lit ''com/evil'') ''com/evil/Tracker''"
  by code_simp

theorem scan_binary_skips_short_signatures_witness:
  "length (code_signature short_tracker) \<le> 3
   \<and> scan_binary [] ''app.apk'' apk_with_dex
        (Some ([short_tracker, long_tracker], [\<lambda>clazz. True, searches (Lit ''com/evil'')]))
      = Inr 1
   \<and> scan_binary [] ''app.apk'' apk_with_dex
        (Some ([long_tracker], [searches (Lit ''com/evil'')]))
      = Inr 1
   \<and> scan_binary [] ''app.apk'' apk_with_dex (Some ([short_tracker], [])) = Inr 0
   \<and> scan_binary [] ''app.apk'' apk_with_dex None = Inr 0"
proof -
  note h = scan_binary_skips_short_signatures [where code_signatures = "[]"
      and apkfile = "''app.apk''" and f = apk_with_dex]
  have s: "length (code_signature short_tracker) \<le> 3 \<and> length ([] :: tracker list) = length ([] :: (string \<Rightarrow> bool) list)"
    by (simp add: short_tracker_def)
  have a: "\<forall>t \<in> set [short_tracker]. length (code_signature t) \<le> 3"
    by (simp add: short_tracker_def)
  have base: "scan_binary [] ''app.apk'' apk_with_dex None = Inr 0"
    by (simp add: scan_binary_def class_problems_def apk_with_dex_classes)
  have long: "scan_binary [] ''app.apk'' apk_with_dex
        (Some ([long_tracker], [searches (Lit ''com/evil'')])) = Inr 1"
    by (simp add: scan_binary_def class_problems_def apk_with_dex_classes long_tracker_def
        detect_tracker_def evil_found)
  have c1: "scan_binary [] ''app.apk'' apk_with_dex
        (Some ([short_tracker, long_tracker], [\<lambda>clazz. True, searches (Lit ''com/evil'')]))
      = Inr 1"
    using h [of short_tracker "[]" "[]" "[long_tracker]" "\<lambda>clazz. True" "[searches (Lit ''com/evil'')]",
        THEN conjunct1, THEN mp, OF s] long
    by simp
  have c2: "scan_binary [] ''app.apk'' apk_with_dex (Some ([short_tracker], [])) = Inr 0"
    using h [of _ _ _ _ _ _ "[short_tracker]" "[]", THEN conjunct2, THEN mp, OF a] base
    by simp
  from s c1 long c2 base show ?thesis by simp
qed

section \<open>Properties of the source scanner\<close>

lemma first_match_SomeD:
  "first_match pol path = Some k
   \<Longrightarrow> \<exists>paths p. (k, paths) \<in> set pol \<and> p \<in> set paths \<and> prefix p path"
  by (induction pol path rule: first_match.induct) (auto split: if_splits)

lemma handleproblem_total:
  assumes "json_per_build st \<noteq> None"
  shows "\<exists>n st'. handleproblem env what p fp st = Inr (n, st')
           \<and> json_per_build st' \<noteq> None
           \<and> scanignore_worked st' \<subseteq> scanignore_worked st \<union> {k. first_match (scanignore env) p = Some k}
           \<and> scandelete_worked st' \<subseteq> scandelete_worked st \<union> {k. first_match (scandelete env) p = Some k}"
proof (cases "first_match (scanignore env) p")
  case (Some k)
  from handleproblem_ignored [OF Some, of what fp st] assms Some show ?thesis by auto
next
  case None
  note ign = None
  show ?thesis
  proof (cases "first_match (scandelete env) p")
    case (Some k)
    from handleproblem_deleted [OF ign Some, of what fp st] assms ign Some show ?thesis by auto
  next
    case None
    show ?thesis
    proof (cases "in_test_path p")
      case True
      from handleproblem_warned [OF ign None True, of what fp st] assms show ?thesis by auto
    next
      case False
      have "options_json env \<longrightarrow> json_per_build st \<noteq> None" using assms by simp
      from handleproblem_error [OF ign None False this, of what fp] assms show ?thesis by auto
    qed
  qed
qed

lemma warnproblem_total:
  assumes "json_per_build st \<noteq> None"
  shows "json_per_build (snd (warnproblem env what p st)) \<noteq> None
       \<and> scanignore_worked (snd (warnproblem env what p st))
            \<subseteq> scanignore_worked st \<union> {k. first_match (scanignore env) p = Some k}
       \<and> scandelete_worked (snd (warnproblem env what p st)) = scandelete_worked st"
  using assms
  by (auto simp: warnproblem_def toignore_def logging_def if_json_per_build_def Let_def
      split: option.splits)

lemma run_call_total:
  assumes "json_per_build (snd cs) \<noteq> None"
  shows "\<exists>cs'. run_call env c cs = Inr cs'
           \<and> json_per_build (snd cs') \<noteq> None
           \<and> scanignore_worked (snd cs') \<subseteq> scanignore_worked (snd cs) \<union> fired (scanignore env) [c]
           \<and> scandelete_worked (snd cs') \<subseteq> scandelete_worked (snd cs) \<union> fired (scandelete env) [c]"
proof (cases c)
  case (Removeproblem what p fp)
  then show ?thesis using assms by (simp add: run_call_def removeproblem_eq)
next
  case (Handleproblem what p fp)
  from handleproblem_total [OF assms, of env what p fp] obtain n st' where
    h: "handleproblem env what p fp (snd cs) = Inr (n, st')" "json_per_build st' \<noteq> None"
       "scanignore_worked st' \<subseteq> scanignore_worked (snd cs) \<union> {k. first_match (scanignore env) p = Some k}"
       "scandelete_worked st' \<subseteq> scandelete_worked (snd cs) \<union> {k. first_match (scandelete env) p = Some k}"
    by blast
  then show ?thesis using Handleproblem by (simp add: run_call_def fired_def)
next
  case (Warnproblem what p)
  from warnproblem_total [OF assms, of env what p] show ?thesis
    using Warnproblem by (simp add: run_call_def fired_def)
qed

lemma fired_Cons: "fired pol (c # cs) = fired pol [c] \<union> fired pol cs"
  by (auto simp: fired_def)

lemma run_calls_total:
  assumes "json_per_build (snd cs) \<noteq> None"
  shows "\<exists>cs'. run_calls env calls cs = Inr cs'
           \<and> json_per_build (snd cs') \<noteq> None
           \<and> scanignore_worked (snd cs') \<subseteq> scanignore_worked (snd cs) \<union> fired (scanignore env) calls
           \<and> scandelete_worked (snd cs') \<subseteq> scandelete_worked (snd cs) \<union> fired (scandelete env) calls"
  using assms
proof (induction calls arbitrary: cs)
  case Nil
  then show ?case by simp
next
  case (Cons c calls)
  from run_call_total [OF Cons.prems, of env c] obtain cs1 where
    a: "run_call env c cs = Inr cs1" "json_per_build (snd cs1) \<noteq> None"
       "scanignore_worked (snd cs1) \<subseteq> scanignore_worked (snd cs) \<union> fired (scanignore env) [c]"
       "scandelete_worked (snd cs1) \<subseteq> scandelete_worked (snd cs) \<union> fired (scandelete env) [c]"
    by blast
  from Cons.IH [OF a(2)] obtain cs2 where
    b: "run_calls env calls cs1 = Inr cs2" "json_per_build (snd cs2) \<noteq> None"
       "scanignore_worked (snd cs2) \<subseteq> scanignore_worked (snd cs1) \<union> fired (scanignore env) calls"
       "scandelete_worked (snd cs2) \<subseteq> scandelete_worked (snd cs1) \<union> fired (scandelete env) calls"
    by blast
  have "run_calls env (c # calls) cs = Inr cs2" using a(1) b(1) by simp
  moreover have "scanignore_worked (snd cs2)
      \<subseteq> scanignore_worked (snd cs) \<union> fired (scanignore env) (c # calls)"
    using a(3) b(3) by (subst fired_Cons) blast
  moreover have "scandelete_worked (snd cs2)
      \<subseteq> scandelete_worked (snd cs) \<union> fired (scandelete env) (c # calls)"
    using a(4) b(4) by (subst fired_Cons) blast
  ultimately show ?case using b(2) by blast
qed

lemma file_calls_path:
  "c \<in> set (file_calls env root rel e) \<Longrightarrow> call_path c = os_path_join rel (curfile e)"
  by (auto simp: file_calls_def Let_def split: branch.splits if_splits)

lemma walk_calls_paths:
  "c \<in> set (walk_calls env root rel tree) \<Longrightarrow> call_path c \<in> set (walked_paths rel tree)"
proof (induction env root rel tree rule: walk_calls.induct)
  case (1 env root rel fs ds)
  from "1.prems" consider
    (in_file) e where "e \<in> set fs" "c \<in> set (file_calls env root rel e)"
  | (in_sub) nd where "nd \<in> set ds" "fst nd \<notin> set vcs_dirs"
      "c \<in> set (walk_calls env (os_path_join root (fst nd)) (os_path_join rel (fst nd)) (snd nd))"
    by auto
  then show ?case
  proof cases
    case in_file
    then show ?thesis using file_calls_path [OF in_file(2)] by auto
  next
    case in_sub
    from "1.IH" [of nd] in_sub
    have "call_path c \<in> set (walked_paths (os_path_join rel (fst nd)) (snd nd))" by simp
    then show ?thesis using in_sub(1,2) by (cases nd) auto
  qed
qed

lemma count_list_distinct: "distinct xs \<Longrightarrow> x \<in> set xs \<Longrightarrow> count_list xs x = 1"
  by (induction xs) (auto simp: count_list_0_iff)

lemma never_fired:
  assumes "distinct (map fst pol)" "(k, paths) \<in> set pol"
    "\<forall>c \<in> set calls. \<forall>p \<in> set paths. \<not> prefix p (call_path c)"
  shows "k \<notin> fired pol calls"
proof
  assume "k \<in> fired pol calls"
  then obtain c where c: "c \<in> set calls" "first_match pol (call_path c) = Some k"
    by (auto simp: fired_def)
  from first_match_SomeD [OF c(2)] obtain paths' p where
    p: "(k, paths') \<in> set pol" "p \<in> set paths'" "prefix p (call_path c)" by blast
  from assms(1,2) p(1) have "paths' = paths"
    by (meson eq_key_imp_eq_value)
  with assms(3) c(1) p(2,3) show False by blast
qed


lemma distinct_unused:
  "distinct (map fst (scanignore env)) \<Longrightarrow> distinct (unused_scanignore env st)"
  "distinct (map fst (scandelete env)) \<Longrightarrow> distinct (unused_scandelete env st)"
  by (simp_all add: unused_scanignore_def unused_scandelete_def)

text \<open>
  Claim C6: every configured ignore or delete policy entry that matched no file during the
  scan of the source tree produces exactly one additional hard error after the walk, and
  each such error increments the returned count by one.

  The scan of a tree always returns (the report exists and the policy tables, which are
  dictionaries, have distinct keys).  With \<open>count\<close> and \<open>st1\<close> the count and the state at the end of the
  walk, the returned count is \<open>count\<close> plus the number of unused ignore entries plus the
  number of unused delete entries, and the log is extended by exactly one error line per
  unused entry.  An entry none of whose paths is a prefix of a path handed to the
  disposition pipeline (in particular, of no walked file) occurs exactly once among the
  unused entries of its table.
\<close>

theorem unused_policy_paths_counted:
  assumes js: "json_per_build st \<noteq> None"
    and di: "distinct (map fst (scanignore env))"
    and dd: "distinct (map fst (scandelete env))"
  shows "\<exists>count st1.
      run_calls env (walk_calls env build_dir [] tree) (0, scan_start st) = Inr (count, st1)
    \<and> scan_source env build_dir tree st
        = Inr (count + length (unused_scanignore env st1) + length (unused_scandelete env st1),
               st1\<lparr>logged := logged st1
                       @ map (\<lambda>p. (Error, unused_scanignore_msg p)) (unused_scanignore env st1)
                       @ map (\<lambda>p. (Error, unused_scandelete_msg p)) (unused_scandelete env st1)\<rparr>)
    \<and> (\<forall>kp \<in> set (scanignore env).
          (\<forall>path \<in> set (walked_paths [] tree). \<forall>p \<in> set (snd kp). \<not> prefix p path)
          \<longrightarrow> count_list (unused_scanignore env st1) (fst kp) = 1)
    \<and> (\<forall>kp \<in> set (scandelete env).
          (\<forall>path \<in> set (walked_paths [] tree). \<forall>p \<in> set (snd kp). \<not> prefix p path)
          \<longrightarrow> count_list (unused_scandelete env st1) (fst kp) = 1)
    \<and> (\<forall>kp \<in> set (scanignore env).
          (\<forall>c \<in> set (walk_calls env build_dir [] tree). \<forall>p \<in> set (snd kp). \<not> prefix p (call_path c))
          \<longrightarrow> count_list (unused_scanignore env st1) (fst kp) = 1)
    \<and> (\<forall>kp \<in> set (scandelete env).
          (\<forall>c \<in> set (walk_calls env build_dir [] tree). \<forall>p \<in> set (snd kp). \<not> prefix p (call_path c))
          \<longrightarrow> count_list (unused_scandelete env st1) (fst kp) = 1)"
proof -
  let ?calls = "walk_calls env build_dir [] tree"
  have "json_per_build (snd (0::nat, scan_start st)) \<noteq> None"
    using js by (simp add: scan_start_def)
  from run_calls_total [OF this, of env ?calls] obtain count st1 where
    run: "run_calls env ?calls (0, scan_start st) = Inr (count, st1)"
    and wi: "scanignore_worked st1 \<subseteq> fired (scanignore env) ?calls"
    and wd: "scandelete_worked st1 \<subseteq> fired (scandelete env) ?calls"
    by (auto simp: scan_start_def)
  have src: "scan_source env build_dir tree st
        = Inr (count + length (unused_scanignore env st1) + length (unused_scandelete env st1),
               st1\<lparr>logged := logged st1
                       @ map (\<lambda>p. (Error, unused_scanignore_msg p)) (unused_scanignore env st1)
                       @ map (\<lambda>p. (Error, unused_scandelete_msg p)) (unused_scandelete env st1)\<rparr>)"
    using run by (simp add: scan_source_def Let_def)
  have ci: "count_list (unused_scanignore env st1) (fst kp) = 1"
    if "kp \<in> set (scanignore env)"
      "\<forall>c \<in> set ?calls. \<forall>p \<in> set (snd kp). \<not> prefix p (call_path c)" for kp
  proof -
    have "(fst kp, snd kp) \<in> set (scanignore env)" using that(1) by simp
    from never_fired [OF di this that(2)] wi have "fst kp \<notin> scanignore_worked st1" by blast
    then have "fst kp \<in> set (unused_scanignore env st1)"
      using that(1) by (auto simp: unused_scanignore_def)
    with distinct_unused(1) [OF di] show ?thesis by (rule count_list_distinct)
  qed
  have cd: "count_list (unused_scandelete env st1) (fst kp) = 1"
    if "kp \<in> set (scandelete env)"
      "\<forall>c \<in> set ?calls. \<forall>p \<in> set (snd kp). \<not> prefix p (call_path c)" for kp
  proof -
    have "(fst kp, snd kp) \<in> set (scandelete env)" using that(1) by simp
    from never_fired [OF dd this that(2)] wd have "fst kp \<notin> scandelete_worked st1" by blast
    then have "fst kp \<in> set (unused_scandelete env st1)"
      using that(1) by (auto simp: unused_scandelete_def)
    with distinct_unused(2) [OF dd] show ?thesis by (rule count_list_distinct)
  qed
  have files: "\<forall>c \<in> set ?calls. \<forall>p \<in> set ps. \<not> prefix p (call_path c)"
    if "\<forall>path \<in> set (walked_paths [] tree). \<forall>p \<in> set ps. \<not> prefix p path" for ps
    using that walk_calls_paths [of _ env build_dir "[]" tree] by blast
  show ?thesis
  proof (intro exI [of _ count] exI [of _ st1] conjI ballI impI)
    show "run_calls env ?calls (0, scan_start st) = Inr (count, st1)" by (rule run)
    show "scan_source env build_dir tree st
        = Inr (count + length (unused_scanignore env st1) + length (unused_scandelete env st1),
               st1\<lparr>logged := logged st1
                       @ map (\<lambda>p. (Error, unused_scanignore_msg p)) (unused_scanignore env st1)
                       @ map (\<lambda>p. (Error, unused_scandelete_msg p)) (unused_scandelete env st1)\<rparr>)"
      by (rule src)
  next
    fix kp assume "kp \<in> set (scanignore env)"
      "\<forall>path \<in> set (walked_paths [] tree). \<forall>p \<in> set (snd kp). \<not> prefix p path"
    then show "count_list (unused_scanignore env st1) (fst kp) = 1"
      using ci files by blast
  next
    fix kp assume "kp \<in> set (scandelete env)"
      "\<forall>path \<in> set (walked_paths [] tree). \<forall>p \<in> set (snd kp). \<not> prefix p path"
    then show "count_list (unused_scandelete env st1) (fst kp) = 1"
      using cd files by blast
  next
    fix kp assume "kp \<in> set (scanignore env)"
      "\<forall>c \<in> set ?calls. \<forall>p \<in> set (snd kp). \<not> prefix p (call_path c)"
    then show "count_list (unused_scanignore env st1) (fst kp) = 1" by (rule ci)
  next
    fix kp assume "kp \<in> set (scandelete env)"
      "\<forall>c \<in> set ?calls. \<forall>p \<in> set (snd kp). \<not> prefix p (call_path c)"
    then show "count_list (unused_scandelete env st1) (fst kp) = 1" by (rule cd)
  qed
qed

lemma jar_tree_calls:
  "walk_calls example_env ''build/app'' [] jar_tree
   = [Handleproblem ''Java JAR file'' ''a.jar'' ''build/app/a.jar'']"
  by code_simp

lemma jar_tree_paths: "walked_paths [] jar_tree = [''a.jar'']"
  by code_simp


text \<open>
  The example tree holds one JAR file and a \<^verbatim>\<open>.git\<close> directory that the walk does not enter.
  The JAR is a hard error; neither policy entry of the example environment matches it, so
  the scan returns 3: the JAR and one error for each of the two unused entries.
\<close>

theorem unused_policy_paths_counted_witness:
  "json_per_build (example_state {''build/app/a.jar''}) \<noteq> None
   \<and> distinct (map fst (scanignore example_env)) \<and> distinct (map fst (scandelete example_env))
   \<and> (\<exists>count st1.
         run_calls example_env (walk_calls example_env ''build/app'' [] jar_tree)
           (0, scan_start (example_state {''build/app/a.jar''})) = Inr (count, st1)
       \<and> count = 1
       \<and> unused_scanignore example_env st1 = [''libs/ok'']
       \<and> unused_scandelete example_env st1 = [''build/tmp'']
       \<and> scan_source example_env ''build/app'' jar_tree (example_state {''build/app/a.jar''})
           = Inr (3, st1\<lparr>logged := logged st1
                            @ [(Error, ''Unused scanignore path: libs/ok''),
                               (Error, ''Unused scandelete path: build/tmp'')]\<rparr>)
       \<and> count_list (unused_scanignore example_env st1) ''libs/ok'' = 1
       \<and> count_list (unused_scandelete example_env st1) ''build/tmp'' = 1)"
proof -
  let ?st = "example_state {''build/app/a.jar''}"
  let ?calls = "walk_calls example_env ''build/app'' [] jar_tree"
  have js: "json_per_build ?st \<noteq> None" by (simp add: example_state_def)
  have di: "distinct (map fst (scanignore example_env))" by (simp add: example_env_def)
  have dd: "distinct (map fst (scandelete example_env))" by (simp add: example_env_def)
  from unused_policy_paths_counted [OF js di dd, of "''build/app''" jar_tree]
  obtain count st1 where
    run: "run_calls example_env ?calls (0, scan_start ?st) = Inr (count, st1)"
    and src: "scan_source example_env ''build/app'' jar_tree ?st
        = Inr (count + length (unused_scanignore example_env st1)
                 + length (unused_scandelete example_env st1),
               st1\<lparr>logged := logged st1
                       @ map (\<lambda>p. (Error, unused_scanignore_msg p)) (unused_scanignore example_env st1)
                       @ map (\<lambda>p. (Error, unused_scandelete_msg p)) (unused_scandelete example_env st1)\<rparr>)"
    and ci: "\<forall>kp \<in> set (scanignore example_env).
          (\<forall>path \<in> set (walked_paths [] jar_tree). \<forall>p \<in> set (snd kp). \<not> prefix p path)
          \<longrightarrow> count_list (unused_scanignore example_env st1) (fst kp) = 1"
    and cd: "\<forall>kp \<in> set (scandelete example_env).
          (\<forall>path \<in> set (walked_paths [] jar_tree). \<forall>p \<in> set (snd kp). \<not> prefix p path)
          \<longrightarrow> count_list (unused_scandelete example_env st1) (fst kp) = 1"
    by (elim exE conjE)
  have c1: "count_list (unused_scanignore example_env st1) ''libs/ok'' = 1"
    using ci by (simp add: example_env_def jar_tree_paths)
  have c2: "count_list (unused_scandelete example_env st1) ''build/tmp'' = 1"
    using cd by (simp add: example_env_def jar_tree_paths)
  have fm: "first_match (scanignore example_env) ''a.jar'' = None"
    "first_match (scandelete example_env) ''a.jar'' = None"
    by (simp_all add: example_env_def)
  have nt: "\<not> in_test_path ''a.jar''"
    unfolding in_test_path_def by code_simp
  have oj: "options_json example_env \<longrightarrow> json_per_build (scan_start ?st) \<noteq> None"
    by (simp add: scan_start_def example_state_def)
  have "run_calls example_env ?calls (0, scan_start ?st)
        = Inr (1, (scan_start ?st)
                 \<lparr>json_per_build :=
                     (if options_json example_env
                      then map_option (append_error (''Java JAR file'', ''a.jar''))
                             (json_per_build (scan_start ?st))
                      else json_per_build (scan_start ?st)),
                   logged :=
                     (if options_log_errors example_env
                      then logged (scan_start ?st) @ [(Error, found_msg ''Java JAR file'' ''a.jar'')]
                      else logged (scan_start ?st))\<rparr>)"
    unfolding jar_tree_calls
    by (simp add: run_call_def handleproblem_error [OF fm nt oj])
  with run have cnt: "count = 1"
    and st1: "scanignore_worked st1 = {}" "scandelete_worked st1 = {}"
    by (simp_all add: scan_start_def)
  have ui: "unused_scanignore example_env st1 = [''libs/ok'']"
    using st1 by (simp add: unused_scanignore_def example_env_def)
  have ud: "unused_scandelete example_env st1 = [''build/tmp'']"
    using st1 by (simp add: unused_scandelete_def example_env_def)
  have src': "scan_source example_env ''build/app'' jar_tree ?st
           = Inr (3, st1\<lparr>logged := logged st1
                            @ [(Error, ''Unused scanignore path: libs/ok''),
                               (Error, ''Unused scandelete path: build/tmp'')]\<rparr>)"
    unfolding src ui ud cnt by (simp add: unused_scanignore_msg_def unused_scandelete_msg_def)
  show ?thesis
  proof (intro conjI exI [of _ count] exI [of _ st1])
    show "json_per_build ?st \<noteq> None" by (rule js)
    show "distinct (map fst (scanignore example_env))" by (rule di)
    show "distinct (map fst (scandelete example_env))" by (rule dd)
    show "run_calls example_env ?calls (0, scan_start ?st) = Inr (count, st1)" by (rule run)
    show "count = 1" by (rule cnt)
    show "unused_scanignore example_env st1 = [''libs/ok'']" by (rule ui)
    show "unused_scandelete example_env st1 = [''build/tmp'']" by (rule ud)
    show "scan_source example_env ''build/app'' jar_tree ?st
           = Inr (3, st1\<lparr>logged := logged st1
                            @ [(Error, ''Unused scanignore path: libs/ok''),
                               (Error, ''Unused scandelete path: build/tmp'')]\<rparr>)"
      by (rule src')
    show "count_list (unused_scanignore example_env st1) ''libs/ok'' = 1" by (rule c1)
    show "count_list (unused_scandelete example_env st1) ''build/tmp'' = 1" by (rule c2)
  qed
qed

section \<open>Properties of the Maven repository scan\<close>

















end
